theory Spec2Isabelle
  imports Main
begin

section \<open>The data interpreter's task-execution control loop\<close>

text \<open>
  A shallow embedding of \<^verbatim>\<open>metagpt/roles/di/data_interpreter.py\<close>: the retry/review
  controller \<^verbatim>\<open>_write_and_exec_code\<close>, the code-generation wrapper \<^verbatim>\<open>_write_code\<close>,
  the data-state checker \<^verbatim>\<open>_check_data\<close>, the image logger
  \<^verbatim>\<open>extract_and_log_images\<close>, the reactive decision step \<^verbatim>\<open>_think\<close> and the
  plan-and-act wrapper \<^verbatim>\<open>_plan_and_act\<close>.

  The collaborators the class awaits (language model, execution backend, reviewer, logging
  sink, tool recommender) are not part of the file. Each is a response function of the
  environment, indexed by the number of calls made to it so far and by the arguments of the
  call; every call is written, with its arguments and its response, to a chronological
  trace. Diagnostic output (\<^verbatim>\<open>print\<close>, \<^verbatim>\<open>logger.info\<close>) is left out of the trace.
\<close>

subsection \<open>Messages, tasks and plans\<close>

datatype role = User | Assistant

datatype cause = WriteAnalysisCode | ExecuteNbCode | CheckData | Unspecified

record message =
  content :: string
  role :: role
  cause_by :: cause

record task =
  task_type :: string
  is_finished :: bool

record plan =
  tasks :: "task list"
  current_task :: task

text \<open>
  Modelled from the spec: \<^verbatim>\<open>Plan.get_finished_tasks\<close> is not in the source files; the
  spec gives a task a completion flag and the plan an ordered sequence of tasks, and the
  accessor returns those that are finished.
\<close>

definition get_finished_tasks :: "plan \<Rightarrow> task list" where
  "get_finished_tasks p = filter is_finished (tasks p)"

subsection \<open>Exceptions\<close>

text \<open>
  A raised object is either an instance of Python's class \<^verbatim>\<open>Exception\<close>, which a clause
  \<^verbatim>\<open>except Exception\<close> catches, or of \<^verbatim>\<open>BaseException\<close> only (a cancellation of the
  task, a keyboard interrupt, a system exit), which that clause lets through. The string
  is what \<^verbatim>\<open>str(e)\<close> returns.
\<close>

datatype exn = Exception string | BaseException string

fun str_of_exn :: "exn \<Rightarrow> string" where
  "str_of_exn (Exception s) = s"
| "str_of_exn (BaseException s) = s"

subsection \<open>Calls to the collaborators\<close>

record wac_args =
  arg_user_requirement :: string
  arg_plan_status :: string
  arg_tool_info :: string
  arg_working_memory :: "message list"
  arg_use_reflection :: bool
  arg_user_id :: string

datatype event =
    is_WriteCode: WriteCode wac_args "exn + string"
  | is_Execute: Execute string "exn + string \<times> bool"
  | is_Terminate: Terminate "exn option"
  | is_AskReview: AskReview "exn + string"
  | is_Log: Log string string "exn option"
  | is_CheckDataRun: CheckDataRun plan "exn + string"
  | is_Recommend: Recommend string "plan option" "exn + string"
  | is_Aask: Aask string "exn + string"

datatype jval = JBool bool | JStr string | JNum int | JNull

record env =
  WriteAnalysisCode_run :: "nat \<Rightarrow> wac_args \<Rightarrow> exn + string"
  ExecuteNbCode_run :: "nat \<Rightarrow> string \<Rightarrow> exn + string \<times> bool"
  ExecuteNbCode_terminate :: "nat \<Rightarrow> exn option"
  planner_ask_review :: "nat \<Rightarrow> exn + string"
  log_execution_rsp :: "nat \<Rightarrow> string \<Rightarrow> string \<Rightarrow> exn option"
  CheckData_run :: "nat \<Rightarrow> plan \<Rightarrow> exn + string"
  get_recommended_tool_info :: "nat \<Rightarrow> string \<Rightarrow> plan option \<Rightarrow> exn + string"
  llm_aask :: "nat \<Rightarrow> string \<Rightarrow> exn + string"
  planner_plan :: plan
  planner_get_plan_status :: string
  CHANGE_WORDS_0 :: string
  DATA_PREPROCESS_type_name :: string
  path_exists :: "string \<Rightarrow> string + bool"
  read_b64encode :: "string \<Rightarrow> string + string"
  str_of_Path :: "string \<Rightarrow> string"
  parse_json_block :: "string \<Rightarrow> string + (string \<times> jval) list"
  str_of_messages :: "message list \<Rightarrow> string"
  ValidationError_text :: "jval \<Rightarrow> string"

text \<open>
  The fields of \<^typ>\<open>'a env_scheme\<close>, in the order above: the code generator
  \<^verbatim>\<open>WriteAnalysisCode.run\<close>; the execution backend's \<^verbatim>\<open>run\<close> (captured output and
  success flag) and \<^verbatim>\<open>terminate\<close>; the first component of \<^verbatim>\<open>planner.ask_review\<close>;
  \<^verbatim>\<open>shared_queue.log_execution\<close> (\<open>None\<close>: returns, \<open>Some e\<close>: raises);
  \<^verbatim>\<open>CheckData.run\<close>; the tool recommender; the language model; the planner's plan and
  status string; the constants \<^verbatim>\<open>ReviewConst.CHANGE_WORDS[0]\<close> and
  \<^verbatim>\<open>TaskType.DATA_PREPROCESS.type_name\<close>, whose values are not in the source files; the
  file system as \<^verbatim>\<open>Path.exists\<close> and as reading a file and base64-encoding it;
  \<^verbatim>\<open>str(Path(p))\<close>; \<^verbatim>\<open>json.loads(CodeParser.parse_code(block=None, text=rsp))\<close> as
  the key-value pairs of the parsed object; the text \<^verbatim>\<open>str.format\<close> gives a list
  of messages; and the text of the \<^verbatim>\<open>ValidationError\<close> with which pydantic refuses a
  message content that is not a string. The awaited collaborators raise any exception, a cancellation included. The
  file system and the parser are called without \<^verbatim>\<open>await\<close> and raise instances of
  \<^verbatim>\<open>Exception\<close> only (\<open>Inl s\<close>, with \<open>s\<close> the text of the error).
\<close>

record config =
  use_plan :: bool
  use_reflection :: bool
  has_tool_recommender :: bool

record state =
  memory :: "message list"
  working_memory :: "message list"
  rc_state :: int
  trace :: "event list"

definition calls :: "(event \<Rightarrow> bool) \<Rightarrow> state \<Rightarrow> nat" where
  "calls P st = length (filter P (trace st))"

subsection \<open>Computations that change the state and may raise\<close>

type_synonym 'a comp = "state \<Rightarrow> (exn + 'a) \<times> state"

definition returns :: "'a \<Rightarrow> 'a comp" where
  "returns x = (\<lambda>st. (Inr x, st))"

definition raises :: "exn \<Rightarrow> 'a comp" where
  "raises e = (\<lambda>st. (Inl e, st))"

definition bind :: "'a comp \<Rightarrow> ('a \<Rightarrow> 'b comp) \<Rightarrow> 'b comp" where
  "bind m f = (\<lambda>st. case m st of (Inl e, st') \<Rightarrow> (Inl e, st') | (Inr x, st') \<Rightarrow> f x st')"

definition seq :: "'a comp \<Rightarrow> 'b comp \<Rightarrow> 'b comp" where
  "seq m k = bind m (\<lambda>_. k)"

text \<open>\<^verbatim>\<open>try: m  except Exception as e: h(e)\<close>\<close>

definition try_except_Exception :: "'a comp \<Rightarrow> (exn \<Rightarrow> 'a comp) \<Rightarrow> 'a comp" where
  "try_except_Exception m h =
     (\<lambda>st. case m st of
        (Inl (Exception s), st') \<Rightarrow> h (Exception s) st'
      | (Inl (BaseException s), st') \<Rightarrow> (Inl (BaseException s), st')
      | (Inr x, st') \<Rightarrow> (Inr x, st'))"

definition of_sum :: "exn + 'a \<Rightarrow> 'a comp" where
  "of_sum r = (case r of Inl e \<Rightarrow> raises e | Inr x \<Rightarrow> returns x)"

definition of_checked :: "string + 'a \<Rightarrow> 'a comp" where
  "of_checked r = (case r of Inl s \<Rightarrow> raises (Exception s) | Inr x \<Rightarrow> returns x)"

definition record_event :: "event \<Rightarrow> unit comp" where
  "record_event ev = (\<lambda>st. (Inr (), st\<lparr>trace := trace st @ [ev]\<rparr>))"

definition working_memory_add :: "message \<Rightarrow> unit comp" where
  "working_memory_add m = (\<lambda>st. (Inr (), st\<lparr>working_memory := working_memory st @ [m]\<rparr>))"

definition set_state :: "int \<Rightarrow> unit comp" where
  "set_state i = (\<lambda>st. (Inr (), st\<lparr>rc_state := i\<rparr>))"

definition log_execution :: "env \<Rightarrow> string \<Rightarrow> string \<Rightarrow> unit comp" where
  "log_execution env text user_id =
     (\<lambda>st. let r = log_execution_rsp env (calls is_Log st) text user_id
           in seq (record_event (Log text user_id r))
                  (case r of None \<Rightarrow> returns () | Some e \<Rightarrow> raises e) st)"

definition execute_code_run :: "env \<Rightarrow> string \<Rightarrow> (string \<times> bool) comp" where
  "execute_code_run env code =
     (\<lambda>st. let r = ExecuteNbCode_run env (calls is_Execute st) code
           in seq (record_event (Execute code r)) (of_sum r) st)"

definition execute_code_terminate :: "env \<Rightarrow> unit comp" where
  "execute_code_terminate env =
     (\<lambda>st. let r = ExecuteNbCode_terminate env (calls is_Terminate st)
           in seq (record_event (Terminate r))
                  (case r of None \<Rightarrow> returns () | Some e \<Rightarrow> raises e) st)"

definition ask_review :: "env \<Rightarrow> string comp" where
  "ask_review env =
     (\<lambda>st. let r = planner_ask_review env (calls is_AskReview st)
           in seq (record_event (AskReview r)) (of_sum r) st)"

definition todo_run :: "env \<Rightarrow> wac_args \<Rightarrow> string comp" where
  "todo_run env args =
     (\<lambda>st. let r = WriteAnalysisCode_run env (calls is_WriteCode st) args
           in seq (record_event (WriteCode args r)) (of_sum r) st)"

definition check_data_run :: "env \<Rightarrow> plan \<Rightarrow> string comp" where
  "check_data_run env p =
     (\<lambda>st. let r = CheckData_run env (calls is_CheckDataRun st) p
           in seq (record_event (CheckDataRun p r)) (of_sum r) st)"

definition recommended_tool_info :: "env \<Rightarrow> string \<Rightarrow> plan option \<Rightarrow> string comp" where
  "recommended_tool_info env context p =
     (\<lambda>st. let r = get_recommended_tool_info env (calls is_Recommend st) context p
           in seq (record_event (Recommend context p r)) (of_sum r) st)"

definition aask :: "env \<Rightarrow> string \<Rightarrow> string comp" where
  "aask env prompt =
     (\<lambda>st. let r = llm_aask env (calls is_Aask st) prompt
           in seq (record_event (Aask prompt r)) (of_sum r) st)"

subsection \<open>Strings\<close>

text \<open>
  \<^verbatim>\<open>w in s\<close> on Python strings: \<open>w\<close> occurs in \<open>s\<close> as a contiguous piece.
\<close>

fun str_in :: "string \<Rightarrow> string \<Rightarrow> bool" where
  "str_in w [] = (w = [])"
| "str_in w (c # cs) = (take (length w) (c # cs) = w \<or> str_in w cs)"

text \<open>
  A Python string is kept as its UTF-8 bytes. \<^verbatim>\<open>str.strip()\<close> removes leading and
  trailing whitespace characters, which are the code points 9 to 13, 28 to 32, U+0085,
  U+00A0, U+1680, U+2000 to U+200A, U+2028, U+2029, U+202F, U+205F and U+3000: in UTF-8
  ten single bytes, two characters of two bytes (C2 85, C2 A0) and seventeen of three
  bytes (E1 9A 80; E2 80 80 to E2 80 8A, E2 80 A8, E2 80 A9, E2 80 AF; E2 81 9F; E3 80 80).
\<close>

definition is_space1 :: "char \<Rightarrow> bool" where
  "is_space1 a = (a \<in> set [CHR 0x09, CHR 0x0A, CHR 0x0B, CHR 0x0C, CHR 0x0D,
                            CHR 0x1C, CHR 0x1D, CHR 0x1E, CHR 0x1F, CHR 0x20])"

definition is_space2 :: "char \<Rightarrow> char \<Rightarrow> bool" where
  "is_space2 a b = (a = CHR 0xC2 \<and> (b = CHR 0x85 \<or> b = CHR 0xA0))"

definition is_space3 :: "char \<Rightarrow> char \<Rightarrow> char \<Rightarrow> bool" where
  "is_space3 a b c =
     ((a = CHR 0xE1 \<and> b = CHR 0x9A \<and> c = CHR 0x80)
      \<or> (a = CHR 0xE2 \<and> b = CHR 0x80
           \<and> c \<in> set [CHR 0x80, CHR 0x81, CHR 0x82, CHR 0x83, CHR 0x84, CHR 0x85, CHR 0x86,
                        CHR 0x87, CHR 0x88, CHR 0x89, CHR 0x8A, CHR 0xA8, CHR 0xA9, CHR 0xAF])
      \<or> (a = CHR 0xE2 \<and> b = CHR 0x81 \<and> c = CHR 0x9F)
      \<or> (a = CHR 0xE3 \<and> b = CHR 0x80 \<and> c = CHR 0x80))"

text \<open>Removing the leading whitespace, and the same on the reversed bytes.\<close>

fun lstrip :: "string \<Rightarrow> string" where
  "lstrip (a # b # c # s) =
     (if is_space1 a then lstrip (b # c # s)
      else if is_space2 a b then lstrip (c # s)
      else if is_space3 a b c then lstrip s
      else a # b # c # s)"
| "lstrip [a, b] = (if is_space1 a then lstrip [b] else if is_space2 a b then [] else [a, b])"
| "lstrip [a] = (if is_space1 a then [] else [a])"
| "lstrip [] = []"

fun lstrip_rev :: "string \<Rightarrow> string" where
  "lstrip_rev (c # b # a # s) =
     (if is_space1 c then lstrip_rev (b # a # s)
      else if is_space2 b c then lstrip_rev (a # s)
      else if is_space3 a b c then lstrip_rev s
      else c # b # a # s)"
| "lstrip_rev [b, a] =
     (if is_space1 b then lstrip_rev [a] else if is_space2 a b then [] else [b, a])"
| "lstrip_rev [a] = (if is_space1 a then [] else [a])"
| "lstrip_rev [] = []"

definition strip :: "string \<Rightarrow> string" where
  "strip s = rev (lstrip_rev (rev (lstrip s)))"

definition DATA_INFO :: "string \<Rightarrow> string" where
  "DATA_INFO info =
     ''\<newline># Latest Data Info\<newline>Latest data info after previous tasks:\<newline>''
       @ info @ ''\<newline>''"

definition REACT_THINK_PROMPT :: "string \<Rightarrow> string \<Rightarrow> string" where
  "REACT_THINK_PROMPT user_requirement context =
     ''\<newline># User Requirement\<newline>'' @ user_requirement
     @ ''\<newline># Context\<newline>'' @ context
     @ ''\<newline>\<newline>Output a json following the format:\<newline>```json\<newline>{\<newline>''
     @ ''    '' @ [CHR 0x22] @ ''thoughts'' @ [CHR 0x22] @ '': str = '' @ [CHR 0x22]
     @ ''Thoughts on current situation, reflect on how you should proceed to fulfill the user requirement''
     @ [CHR 0x22] @ '',\<newline>''
     @ ''    '' @ [CHR 0x22] @ ''state'' @ [CHR 0x22] @ '': bool = '' @ [CHR 0x22]
     @ ''Decide whether you need to take more actions to complete the user requirement. ''
     @ ''Return true if you think so. Return false if you think the requirement has been completely fulfilled.''
     @ [CHR 0x22] @ ''\<newline>}\<newline>```\<newline>''"

text \<open>
  \<^verbatim>\<open>re.findall(r"Image saved to: (.+\.png)", result)\<close>. The dot matches every
  character but the newline and \<^verbatim>\<open>.+\<close> is greedy, so after the literal prefix the group
  is the longest piece of the current line that has at least one character before a final
  \<^verbatim>\<open>.png\<close>. Matches do not overlap: the scan resumes behind the end of a match.
\<close>

definition png_group :: "string \<Rightarrow> string option" where
  "png_group rest =
     (let line = takeWhile (\<lambda>c. c \<noteq> CHR 0x0A) rest;
          ks = filter (\<lambda>k. take 4 (drop k line) = ''.png'') [1..<length line]
      in if ks = [] then None else Some (take (last ks + 4) line))"

fun findall_from :: "nat \<Rightarrow> string \<Rightarrow> string list" where
  "findall_from skip [] = []"
| "findall_from skip (c # cs) =
     (if 0 < skip then findall_from (skip - 1) cs
      else if take 16 (c # cs) = ''Image saved to: '' then
        (case png_group (drop 16 (c # cs)) of
           None \<Rightarrow> findall_from 0 cs
         | Some g \<Rightarrow> g # findall_from (16 + length g - 1) cs)
      else findall_from 0 cs)"

definition findall_image_saved :: "string \<Rightarrow> string list" where
  "findall_image_saved result = findall_from 0 result"

subsection \<open>\<^verbatim>\<open>_write_code\<close>\<close>

text \<open>
  \<^verbatim>\<open>self.rc.todo\<close>. The method \<^verbatim>\<open>Role._set_state\<close> that assigns it is not among the
  source files. The class registers \<^verbatim>\<open>WriteAnalysisCode\<close> as its only action (line 59),
  selects state 0 or state -1 only (lines 60, 75, 83) and says at line 191 that the todo is
  \<^verbatim>\<open>WriteAnalysisCode\<close>; state -1 is the state with nothing to do, where the todo is
  \<^verbatim>\<open>None\<close>.
\<close>

definition rc_todo :: "state \<Rightarrow> cause option" where
  "rc_todo st = (if 0 \<le> rc_state st then Some WriteAnalysisCode else None)"

text \<open>
  Line 192 reads \<^verbatim>\<open>todo.name\<close>, which raises \<^verbatim>\<open>AttributeError\<close> when the todo is
  \<^verbatim>\<open>None\<close>; line 195 reads the last message of the role's memory, which raises
  \<^verbatim>\<open>IndexError\<close> when the memory is empty.
\<close>

definition write_code ::
  "env \<Rightarrow> config \<Rightarrow> int \<Rightarrow> string \<Rightarrow> string \<Rightarrow> string \<Rightarrow> (string \<times> cause) comp" where
  "write_code env cfg counter plan_status tool_info user_id =
     (\<lambda>st. case rc_todo st of
        None \<Rightarrow>
          raises (Exception ([CHR 0x27] @ ''NoneType'' @ [CHR 0x27]
                             @ '' object has no attribute '' @ [CHR 0x27] @ ''name''
                             @ [CHR 0x27])) st
      | Some todo \<Rightarrow>
          (let reflect = (counter > 0 \<and> use_reflection cfg)
           in if memory st = [] then raises (Exception ''list index out of range'') st
              else bind (todo_run env
                          \<lparr>arg_user_requirement = content (last (memory st)),
                           arg_plan_status = plan_status,
                           arg_tool_info = tool_info,
                           arg_working_memory = working_memory st,
                           arg_use_reflection = reflect,
                           arg_user_id = user_id\<rparr>)
                        (\<lambda>code. returns (code, todo)) st))"

subsection \<open>\<^verbatim>\<open>_check_data\<close>\<close>

definition check_data :: "env \<Rightarrow> config \<Rightarrow> unit comp" where
  "check_data env cfg =
     (if \<not> use_plan cfg
         \<or> get_finished_tasks (planner_plan env) = []
         \<or> task_type (current_task (planner_plan env)) \<notin> set [DATA_PREPROCESS_type_name env]
      then returns ()
      else bind (check_data_run env (planner_plan env)) (\<lambda>code.
             if strip code = [] then returns ()
             else bind (execute_code_run env code) (\<lambda>(result, success).
                    if success
                    then working_memory_add
                           \<lparr>content = DATA_INFO result, role = User, cause_by = CheckData\<rparr>
                    else returns ())))"

subsection \<open>\<^verbatim>\<open>extract_and_log_images\<close>\<close>

text \<open>The body of the \<^verbatim>\<open>try\<close> statement of the loop over the matches, and the loop body.\<close>

definition log_image_body :: "env \<Rightarrow> string \<Rightarrow> string \<Rightarrow> unit comp" where
  "log_image_body env user_id image_path =
     bind (of_checked (path_exists env image_path)) (\<lambda>ex.
       if ex then
         bind (of_checked (read_b64encode env image_path)) (\<lambda>image_data.
           seq (log_execution env
                  (''<img src='' @ [CHR 0x27] @ ''data:image/png;base64,'' @ image_data
                     @ [CHR 0x27] @ ''>\<newline>'') user_id)
          (seq (log_execution env ''\<newline>'' user_id)
               (log_execution env ''---\<newline>'' user_id)))
       else log_execution env
              (''Image file not found: '' @ str_of_Path env image_path) user_id)"

definition log_image :: "env \<Rightarrow> string \<Rightarrow> string \<Rightarrow> unit comp" where
  "log_image env user_id image_path =
     try_except_Exception (log_image_body env user_id image_path)
       (\<lambda>e. log_execution env
               (''Error processing image '' @ str_of_Path env image_path @ '': '' @ str_of_exn e)
               user_id)"

fun log_images :: "env \<Rightarrow> string \<Rightarrow> string list \<Rightarrow> unit comp" where
  "log_images env user_id [] = returns ()"
| "log_images env user_id (image_path # matches) =
     seq (log_image env user_id image_path) (log_images env user_id matches)"

definition extract_and_log_images :: "env \<Rightarrow> string \<Rightarrow> string \<Rightarrow> unit comp" where
  "extract_and_log_images env result user_id =
     log_images env user_id (findall_image_saved result)"

subsection \<open>\<^verbatim>\<open>_write_and_exec_code\<close>\<close>

text \<open>
  The variables of the \<^verbatim>\<open>while\<close> loop. \<^verbatim>\<open>code\<close> and \<^verbatim>\<open>result\<close> are unbound until
  the first iteration has assigned them.
\<close>

record loop_vars =
  code :: "string option"
  result :: "string option"
  success :: bool
  counter :: int

text \<open>One iteration of the loop body, lines 128 to 156.\<close>

definition attempt ::
  "env \<Rightarrow> config \<Rightarrow> int \<Rightarrow> string \<Rightarrow> string \<Rightarrow> string \<Rightarrow> loop_vars \<Rightarrow> loop_vars comp" where
  "attempt env cfg max_retry user_id plan_status tool_info v =
     bind (write_code env cfg (counter v) plan_status tool_info user_id) (\<lambda>(c, cause).
     seq (log_execution env ''### Code to be executed\<newline>'' user_id)
    (seq (log_execution env (''```python\<newline>'' @ c @ ''\<newline>```\<newline>'') user_id)
    (seq (working_memory_add \<lparr>content = c, role = Assistant, cause_by = cause\<rparr>)
    (bind (execute_code_run env c) (\<lambda>(r, ok).
     seq (if ok then
            seq (log_execution env
                   (''### '' @ [CHR 0xE2, CHR 0x9C, CHR 0x85] @ ''Execution result\<newline>'') user_id)
           (seq (log_execution env (''```\<newline>'' @ r @ ''\<newline>```\<newline>'') user_id)
                (extract_and_log_images env r user_id))
          else
            seq (log_execution env
                   (''### '' @ [CHR 0xE2, CHR 0x9D, CHR 0x8C] @ ''Execution result\<newline>'') user_id)
                (log_execution env (''```\<newline>'' @ r @ ''\<newline>```\<newline>'') user_id))
    (seq (working_memory_add \<lparr>content = r, role = User, cause_by = ExecuteNbCode\<rparr>)
         (let n = counter v + 1 in
          if \<not> ok \<and> n \<ge> max_retry then
            bind (ask_review env) (\<lambda>review.
              returns \<lparr>code = Some c, result = Some r, success = ok,
                       counter = (if str_in (CHANGE_WORDS_0 env) review then 0 else n)\<rparr>)
          else returns \<lparr>code = Some c, result = Some r, success = ok, counter = n\<rparr>)))))))"

text \<open>
  The \<^verbatim>\<open>while\<close> loop. A reviewer who asks for a change every time keeps it running, so
  the loop is a partial function: \<open>None\<close> stands for a run that does not return.
\<close>

partial_function (option) retry_loop ::
  "env \<Rightarrow> config \<Rightarrow> int \<Rightarrow> string \<Rightarrow> string \<Rightarrow> string \<Rightarrow> loop_vars \<Rightarrow> state
     \<Rightarrow> ((exn + loop_vars) \<times> state) option" where
  "retry_loop env cfg max_retry user_id plan_status tool_info v st =
     (if \<not> success v \<and> counter v < max_retry then
        (case attempt env cfg max_retry user_id plan_status tool_info v st of
           (Inl e, st') \<Rightarrow> Some (Inl e, st')
         | (Inr v', st') \<Rightarrow> retry_loop env cfg max_retry user_id plan_status tool_info v' st')
      else Some (Inr v, st))"

declare retry_loop.simps [code]

definition tool_info_of :: "env \<Rightarrow> config \<Rightarrow> string comp" where
  "tool_info_of env cfg =
     (if has_tool_recommender cfg then
        (\<lambda>st. recommended_tool_info env
                (if working_memory st \<noteq> [] then content (last (working_memory st)) else [])
                (if use_plan cfg then Some (planner_plan env) else None) st)
      else returns [])"

text \<open>Lines 108 to 125: everything before the loop.\<close>

definition prepare :: "env \<Rightarrow> config \<Rightarrow> (string \<times> string) comp" where
  "prepare env cfg =
     (let plan_status = (if use_plan cfg then planner_get_plan_status env else [])
      in bind (tool_info_of env cfg) (\<lambda>tool_info.
         seq (check_data env cfg) (returns (plan_status, tool_info))))"

text \<open>
  \<^verbatim>\<open>return code, result, success\<close>: when the loop body never ran, the two names are
  unbound and the statement raises \<^verbatim>\<open>UnboundLocalError\<close>.
\<close>

definition return_triple :: "loop_vars \<Rightarrow> (string \<times> string \<times> bool) comp" where
  "return_triple v =
     (case (code v, result v) of
        (Some c, Some r) \<Rightarrow> returns (c, r, success v)
      | _ \<Rightarrow>
          raises (Exception (''cannot access local variable '' @ [CHR 0x27] @ ''code''
                             @ [CHR 0x27] @ '' where it is not associated with a value'')))"

definition write_and_exec_code ::
  "env \<Rightarrow> config \<Rightarrow> int \<Rightarrow> string \<Rightarrow> state
     \<Rightarrow> ((exn + string \<times> string \<times> bool) \<times> state) option" where
  "write_and_exec_code env cfg max_retry user_id st =
     (case prepare env cfg st of
        (Inl e, st0) \<Rightarrow> Some (Inl e, st0)
      | (Inr (plan_status, tool_info), st0) \<Rightarrow>
          (case retry_loop env cfg max_retry user_id plan_status tool_info
                  \<lparr>code = None, result = None, success = False, counter = 0\<rparr> st0 of
             None \<Rightarrow> None
           | Some (Inl e, st') \<Rightarrow> Some (Inl e, st')
           | Some (Inr v, st') \<Rightarrow> Some (return_triple v st')))"

text \<open>\<^verbatim>\<open>_act\<close> and \<^verbatim>\<open>_act_on_task\<close> call the controller with its default bound of 3.\<close>

record task_result =
  tr_code :: string
  tr_result :: string
  tr_is_success :: bool

definition act :: "env \<Rightarrow> config \<Rightarrow> state \<Rightarrow> ((exn + message) \<times> state) option" where
  "act env cfg st =
     (case write_and_exec_code env cfg 3 [] st of
        None \<Rightarrow> None
      | Some (Inl e, st') \<Rightarrow> Some (Inl e, st')
      | Some (Inr (c, r, ok), st') \<Rightarrow>
          Some (Inr \<lparr>content = c, role = Assistant, cause_by = WriteAnalysisCode\<rparr>, st'))"

definition act_on_task ::
  "env \<Rightarrow> config \<Rightarrow> task \<Rightarrow> string \<Rightarrow> state \<Rightarrow> ((exn + task_result) \<times> state) option" where
  "act_on_task env cfg current user_id st =
     (case write_and_exec_code env cfg 3 user_id st of
        None \<Rightarrow> None
      | Some (Inl e, st') \<Rightarrow> Some (Inl e, st')
      | Some (Inr (c, r, ok), st') \<Rightarrow>
          Some (Inr \<lparr>tr_code = c, tr_result = r, tr_is_success = ok\<rparr>, st'))"

subsection \<open>\<^verbatim>\<open>_think\<close>\<close>

text \<open>
  \<^verbatim>\<open>rsp_dict[key]\<close> raises \<^verbatim>\<open>KeyError\<close> on a missing key; \<^verbatim>\<open>Message(content=...)\<close>
  accepts a string only; the conditional expression and the caller test the truth value
  of \<^verbatim>\<open>rsp_dict["state"]\<close>.
\<close>

definition dict_item :: "(string \<times> jval) list \<Rightarrow> string \<Rightarrow> jval comp" where
  "dict_item d k = (case map_of d k of None \<Rightarrow> raises (Exception ([CHR 0x27] @ k @ [CHR 0x27])) | Some v \<Rightarrow> returns v)"

fun message_content :: "env \<Rightarrow> jval \<Rightarrow> string comp" where
  "message_content env (JStr s) = returns s"
| "message_content env v = raises (Exception (ValidationError_text env v))"

fun truthy :: "jval \<Rightarrow> bool" where
  "truthy (JBool b) = b"
| "truthy (JStr s) = (s \<noteq> [])"
| "truthy (JNum n) = (n \<noteq> 0)"
| "truthy JNull = False"

definition think :: "env \<Rightarrow> bool comp" where
  "think env =
     (\<lambda>st. case memory st of
        [] \<Rightarrow> raises (Exception ''list index out of range'') st
      | m0 # ms \<Rightarrow>
         (if working_memory st = [] then
            seq (working_memory_add m0) (seq (set_state 0) (returns True)) st
          else
            bind (aask env (REACT_THINK_PROMPT (content m0)
                              (str_of_messages env (working_memory st)))) (\<lambda>rsp.
            bind (of_checked (parse_json_block env rsp)) (\<lambda>rsp_dict.
            bind (dict_item rsp_dict ''thoughts'') (\<lambda>t.
            bind (message_content env t) (\<lambda>thoughts.
            seq (working_memory_add
                   \<lparr>content = thoughts, role = Assistant, cause_by = Unspecified\<rparr>)
           (bind (dict_item rsp_dict ''state'') (\<lambda>need_action.
            seq (set_state (if truthy need_action then 0 else - 1))
                (returns (truthy need_action)))))))) st))"

subsection \<open>\<^verbatim>\<open>_plan_and_act\<close>\<close>

text \<open>
  \<^verbatim>\<open>super()._plan_and_act\<close> belongs to the base class \<^verbatim>\<open>Role\<close>, which is not among
  the source files: it is a parameter, any computation that returns a message, raises, or
  does not return.
\<close>

definition plan_and_act ::
  "(string \<Rightarrow> state \<Rightarrow> ((exn + message) \<times> state) option) \<Rightarrow> env \<Rightarrow> string \<Rightarrow> state
     \<Rightarrow> ((exn + message) \<times> state) option" where
  "plan_and_act super_plan_and_act env user_id st =
     (case super_plan_and_act user_id st of
        None \<Rightarrow> None
      | Some (Inr rsp, st') \<Rightarrow> Some (Inr rsp, st')
      | Some (Inl (Exception s), st') \<Rightarrow>
          Some (seq (execute_code_terminate env) (raises (Exception s)) st')
      | Some (Inl (BaseException s), st') \<Rightarrow> Some (Inl (BaseException s), st'))"

subsection \<open>Vocabulary of the properties\<close>

text \<open>The two messages an attempt leaves in the working memory.\<close>

definition code_message :: "string \<Rightarrow> message" where
  "code_message c = \<lparr>content = c, role = Assistant, cause_by = WriteAnalysisCode\<rparr>"

definition result_message :: "string \<Rightarrow> message" where
  "result_message r = \<lparr>content = r, role = User, cause_by = ExecuteNbCode\<rparr>"

text \<open>The message \<^verbatim>\<open>_check_data\<close> builds from the output of the inspection code.\<close>

definition data_info_message :: "string \<Rightarrow> message" where
  "data_info_message r = \<lparr>content = DATA_INFO r, role = User, cause_by = CheckData\<rparr>"

text \<open>The three conditions under which \<^verbatim>\<open>_check_data\<close> goes past its first \<^verbatim>\<open>return\<close>.\<close>

definition check_data_triggered :: "env \<Rightarrow> config \<Rightarrow> bool" where
  "check_data_triggered env cfg =
     (use_plan cfg \<and> get_finished_tasks (planner_plan env) \<noteq> []
      \<and> task_type (current_task (planner_plan env)) = DATA_PREPROCESS_type_name env)"

text \<open>The messages an execution recorded in the trace stands for.\<close>

fun exchange :: "event \<Rightarrow> message list" where
  "exchange (Execute c (Inr (r, ok))) = [code_message c, result_message r]"
| "exchange ev = []"


text \<open>The arguments \<^verbatim>\<open>_write_code\<close> hands to the generator in a given state.\<close>

definition wac_args_of ::
  "config \<Rightarrow> int \<Rightarrow> string \<Rightarrow> string \<Rightarrow> string \<Rightarrow> state \<Rightarrow> wac_args" where
  "wac_args_of cfg n plan_status tool_info user_id st =
     \<lparr>arg_user_requirement = content (last (memory st)),
      arg_plan_status = plan_status,
      arg_tool_info = tool_info,
      arg_working_memory = working_memory st,
      arg_use_reflection = (n > 0 \<and> use_reflection cfg),
      arg_user_id = user_id\<rparr>"

text \<open>All calls but those to the logging sink.\<close>

definition other_calls :: "event list \<Rightarrow> event list" where
  "other_calls evs = filter (\<lambda>e. \<not> is_Log e) evs"




text \<open>
  A state that differs from another by further trace entries of one kind only; a state
  whose trace has grown by entries of one kind, whatever else has changed; a computation
  all of whose runs change the state by a given relation; a computation that returns from
  every state.
\<close>

definition extends_by :: "(event \<Rightarrow> bool) \<Rightarrow> state \<Rightarrow> state \<Rightarrow> bool" where
  "extends_by P st st' = (\<exists>evs. (\<forall>e \<in> set evs. P e) \<and> st' = st\<lparr>trace := trace st @ evs\<rparr>)"

definition grows_by :: "(event \<Rightarrow> bool) \<Rightarrow> state \<Rightarrow> state \<Rightarrow> bool" where
  "grows_by Q st st' = (\<exists>new. trace st' = trace st @ new \<and> (\<forall>e \<in> set new. Q e))"

definition preserves :: "(state \<Rightarrow> state \<Rightarrow> bool) \<Rightarrow> 'a comp \<Rightarrow> bool" where
  "preserves R m = (\<forall>st r st'. m st = (r, st') \<longrightarrow> R st st')"


subsection \<open>Concrete collaborators\<close>

text \<open>
  A concrete run: a plan without finished tasks, a generator that answers
  \<^verbatim>\<open>draft()\<close> and, when asked to reflect, \<^verbatim>\<open>fixed()\<close>, a backend whose success per call
  is given by a function of the call index, and a reviewer with a fixed answer.
\<close>

definition example_plan :: plan where
  "example_plan = \<lparr>tasks = [\<lparr>task_type = ''eda'', is_finished = False\<rparr>],
                    current_task = \<lparr>task_type = ''eda'', is_finished = False\<rparr>\<rparr>"

definition example_env :: "(nat \<Rightarrow> bool) \<Rightarrow> string \<Rightarrow> env" where
  "example_env ok review =
     \<lparr>WriteAnalysisCode_run = (\<lambda>k a. Inr (if arg_use_reflection a then ''fixed()'' else ''draft()'')),
      ExecuteNbCode_run =
        (\<lambda>k c. Inr (if ok k then (''Image saved to: a.png'', True) else (''Traceback'', False))),
      ExecuteNbCode_terminate = (\<lambda>k. None),
      planner_ask_review = (\<lambda>k. Inr review),
      log_execution_rsp = (\<lambda>k t u. None),
      CheckData_run = (\<lambda>k p. Inr ''print(df.columns)''),
      get_recommended_tool_info = (\<lambda>k c p. Inr []),
      llm_aask = (\<lambda>k p. Inr []),
      planner_plan = example_plan,
      planner_get_plan_status = ''status'',
      CHANGE_WORDS_0 = ''change'',
      DATA_PREPROCESS_type_name = ''data preprocessing'',
      path_exists = (\<lambda>p. Inr False),
      read_b64encode = (\<lambda>p. Inl ''FileNotFoundError''),
      str_of_Path = (\<lambda>p. p),
      parse_json_block = (\<lambda>s. Inl ''JSONDecodeError''),
      str_of_messages = (\<lambda>ms. concat (map content ms)),
      ValidationError_text = (\<lambda>v. ''1 validation error for Message'')\<rparr>"

definition example_config :: config where
  "example_config = \<lparr>use_plan = True, use_reflection = True, has_tool_recommender = False\<rparr>"

definition example_state :: state where
  "example_state =
     \<lparr>memory = [\<lparr>content = ''fit a regression'', role = User, cause_by = Unspecified\<rparr>],
      working_memory = [], rc_state = 0, trace = []\<rparr>"

text \<open>A plan in which the data-state checker is due.\<close>

definition example_preprocess_plan :: plan where
  "example_preprocess_plan =
     \<lparr>tasks = [\<lparr>task_type = ''eda'', is_finished = True\<rparr>,
               \<lparr>task_type = ''data preprocessing'', is_finished = False\<rparr>],
      current_task = \<lparr>task_type = ''data preprocessing'', is_finished = False\<rparr>\<rparr>"

text \<open>
  Two plan-and-act loops of the base class: one is cancelled, one fails with an instance of
  \<^verbatim>\<open>Exception\<close>.
\<close>

definition cancelled_super :: "string \<Rightarrow> state \<Rightarrow> ((exn + message) \<times> state) option" where
  "cancelled_super user_id st = Some (Inl (BaseException ''CancelledError''), st)"

definition failing_super :: "string \<Rightarrow> state \<Rightarrow> ((exn + message) \<times> state) option" where
  "failing_super user_id st = Some (Inl (Exception ''RuntimeError''), st)"



text \<open>
  A string that is empty or made of whitespace characters only, and the condition under
  which \<^verbatim>\<open>_check_data\<close> hands inspection code to the backend: the check is due, the
  generator returns, and what it returns is not blank.
\<close>

inductive only_whitespace :: "string \<Rightarrow> bool" where
  empty: "only_whitespace []"
| one: "is_space1 a \<Longrightarrow> only_whitespace s \<Longrightarrow> only_whitespace (a # s)"
| two: "is_space2 a b \<Longrightarrow> only_whitespace s \<Longrightarrow> only_whitespace (a # b # s)"
| three: "is_space3 a b c \<Longrightarrow> only_whitespace s \<Longrightarrow> only_whitespace (a # b # c # s)"

code_pred only_whitespace .




section \<open>Properties\<close>

subsection \<open>Computations\<close>

lemma bind_InrE:
  assumes "bind m f st = (Inr y, st')"
  obtains x s1 where "m st = (Inr x, s1)" and "f x s1 = (Inr y, st')"
  using assms by (auto simp: bind_def split: prod.splits sum.splits)

lemma seq_InrE:
  assumes "seq m k st = (Inr y, st')"
  obtains x s1 where "m st = (Inr x, s1)" and "k s1 = (Inr y, st')"
  using assms by (auto simp: seq_def bind_def split: prod.splits sum.splits)





subsection \<open>Trace extensions\<close>

lemma extends_by_refl: "extends_by P st st"
  unfolding extends_by_def by (rule exI [of _ "[]"]) simp

lemma extends_by_trans:
  assumes "extends_by P a b" and "extends_by P b c"
  shows "extends_by P a c"
proof -
  from assms obtain xs ys where
    xs: "\<forall>e \<in> set xs. P e" "b = a\<lparr>trace := trace a @ xs\<rparr>" and
    ys: "\<forall>e \<in> set ys. P e" "c = b\<lparr>trace := trace b @ ys\<rparr>"
    unfolding extends_by_def by blast
  have "c = a\<lparr>trace := trace a @ (xs @ ys)\<rparr>" using xs(2) ys(2) by simp
  moreover have "\<forall>e \<in> set (xs @ ys). P e" using xs(1) ys(1) by auto
  ultimately show ?thesis unfolding extends_by_def by blast
qed

lemma extends_by_single: "P ev \<Longrightarrow> extends_by P st (st\<lparr>trace := trace st @ [ev]\<rparr>)"
  unfolding extends_by_def by (rule exI [of _ "[ev]"]) simp

lemma preserves_returns: "preserves (extends_by P) (returns x)"
  by (simp add: preserves_def returns_def extends_by_refl)

lemma preserves_raises: "preserves (extends_by P) (raises e)"
  by (simp add: preserves_def raises_def extends_by_refl)

lemma preserves_bind:
  assumes "preserves (extends_by P) m" and "\<And>x. preserves (extends_by P) (f x)"
  shows "preserves (extends_by P) (bind m f)"
  unfolding preserves_def
proof (intro allI impI)
  fix st r st'
  assume run: "bind m f st = (r, st')"
  obtain r1 s1 where m: "m st = (r1, s1)" by (cases "m st")
  have a: "extends_by P st s1" using assms(1) m by (simp add: preserves_def)
  show "extends_by P st st'"
  proof (cases r1)
    case (Inl e)
    with run m have "st' = s1" by (simp add: bind_def)
    with a show ?thesis by simp
  next
    case (Inr x)
    with run m have "f x s1 = (r, st')" by (simp add: bind_def)
    with assms(2) have "extends_by P s1 st'" by (simp add: preserves_def)
    with a show ?thesis by (rule extends_by_trans)
  qed
qed

lemma preserves_seq:
  "preserves (extends_by P) m \<Longrightarrow> preserves (extends_by P) k
     \<Longrightarrow> preserves (extends_by P) (seq m k)"
  unfolding seq_def by (rule preserves_bind)

lemma preserves_try:
  assumes "preserves (extends_by P) m" and "\<And>e. preserves (extends_by P) (h e)"
  shows "preserves (extends_by P) (try_except_Exception m h)"
  unfolding preserves_def
proof (intro allI impI)
  fix st r st'
  assume run: "try_except_Exception m h st = (r, st')"
  obtain r1 s1 where m: "m st = (r1, s1)" by (cases "m st")
  have a: "extends_by P st s1" using assms(1) m by (simp add: preserves_def)
  show "extends_by P st st'"
  proof (cases r1)
    case (Inr x)
    with run m have "st' = s1" by (simp add: try_except_Exception_def)
    with a show ?thesis by simp
  next
    case (Inl e)
    show ?thesis
    proof (cases e)
      case (Exception s)
      with Inl run m have "h (Exception s) s1 = (r, st')"
        by (simp add: try_except_Exception_def)
      with assms(2) have "extends_by P s1 st'" by (simp add: preserves_def)
      with a show ?thesis by (rule extends_by_trans)
    next
      case (BaseException s)
      with Inl run m have "st' = s1" by (simp add: try_except_Exception_def)
      with a show ?thesis by simp
    qed
  qed
qed

lemma preserves_of_checked: "preserves (extends_by P) (of_checked r)"
  by (cases r) (simp_all add: of_checked_def preserves_returns preserves_raises)

lemma preserves_log_execution: "preserves (extends_by is_Log) (log_execution env t u)"
  unfolding preserves_def log_execution_def Let_def seq_def bind_def record_event_def
  by (auto simp: returns_def raises_def extends_by_single split: option.splits)

lemma preserves_log_image: "preserves (extends_by is_Log) (log_image env u p)"
  unfolding log_image_def log_image_body_def
  by (auto intro!: preserves_try preserves_bind preserves_seq preserves_of_checked
        preserves_log_execution)

lemma preserves_log_images: "preserves (extends_by is_Log) (log_images env u ps)"
  by (induction ps) (simp_all add: preserves_returns preserves_seq preserves_log_image)

lemma preserves_extract: "preserves (extends_by is_Log) (extract_and_log_images env r u)"
  by (simp add: extract_and_log_images_def preserves_log_images)

lemma preserves_result_logs:
  "preserves (extends_by is_Log)
     (if ok then seq (log_execution env a u)
                    (seq (log_execution env b u) (extract_and_log_images env r u))
      else seq (log_execution env c u) (log_execution env d u))"
  by (simp add: preserves_seq preserves_log_execution preserves_extract)

lemma filter_logs:
  assumes "\<forall>e \<in> set evs. is_Log e" and "\<And>t u r. \<not> P (Log t u r)"
  shows "filter P evs = []"
proof -
  have "\<not> P e" if "e \<in> set evs" for e
  proof -
    from that assms(1) have "is_Log e" by simp
    then obtain t u r where "e = Log t u r" by (cases e) simp_all
    with assms(2) show ?thesis by simp
  qed
  then show ?thesis by (simp add: filter_empty_conv)
qed

lemma other_calls_logs: "\<forall>e \<in> set evs. is_Log e \<Longrightarrow> other_calls evs = []"
  unfolding other_calls_def by (rule filter_logs) simp_all

lemma other_calls_append: "other_calls (xs @ ys) = other_calls xs @ other_calls ys"
  by (simp add: other_calls_def)

lemma filter_other_calls:
  assumes "\<And>t u r. \<not> P (Log t u r)"
  shows "filter P (other_calls evs) = filter P evs"
proof -
  have "P e \<longrightarrow> \<not> is_Log e" for e using assms by (cases e) simp_all
  then show ?thesis unfolding other_calls_def by (auto intro: filter_cong)
qed

lemma exchange_other_calls: "concat (map exchange (other_calls evs)) = concat (map exchange evs)"
proof (induction evs)
  case Nil
  show ?case by (simp add: other_calls_def)
next
  case (Cons e evs)
  then show ?case by (cases e) (simp_all add: other_calls_def)
qed

subsection \<open>One attempt\<close>

lemma execute_code_run_Inr:
  assumes "execute_code_run env c st = (Inr (r, ok), st')"
  shows "ExecuteNbCode_run env (calls is_Execute st) c = Inr (r, ok)
         \<and> st' = st\<lparr>trace := trace st @ [Execute c (Inr (r, ok))]\<rparr>"
  using assms
  by (auto simp: execute_code_run_def Let_def seq_def bind_def record_event_def returns_def
        raises_def of_sum_def split: sum.splits)

lemma ask_review_Inr:
  assumes "ask_review env st = (Inr x, st')"
  shows "planner_ask_review env (calls is_AskReview st) = Inr x
         \<and> st' = st\<lparr>trace := trace st @ [AskReview (Inr x)]\<rparr>"
  using assms
  by (auto simp: ask_review_def Let_def seq_def bind_def record_event_def returns_def
        raises_def of_sum_def split: sum.splits)

lemma write_code_Inr:
  assumes "write_code env cfg n ps ti u st = (Inr (c, cause), st')"
  shows "memory st \<noteq> [] \<and> cause = WriteAnalysisCode
         \<and> WriteAnalysisCode_run env (calls is_WriteCode st) (wac_args_of cfg n ps ti u st) = Inr c
         \<and> st' = st\<lparr>trace := trace st @ [WriteCode (wac_args_of cfg n ps ti u st) (Inr c)]\<rparr>"
  using assms
  by (auto simp: write_code_def rc_todo_def todo_run_def wac_args_of_def Let_def seq_def bind_def
        record_event_def returns_def raises_def of_sum_def split: sum.splits if_splits)

lemma seq_logs_InrE:
  assumes "seq m k st = (Inr y, st')" and "preserves (extends_by is_Log) m"
  obtains evs where "\<forall>e \<in> set evs. is_Log e" and "k (st\<lparr>trace := trace st @ evs\<rparr>) = (Inr y, st')"
proof -
  from assms(1) obtain x s1 where m: "m st = (Inr x, s1)" and k: "k s1 = (Inr y, st')"
    by (rule seq_InrE)
  from assms(2) m have "extends_by is_Log st s1" by (simp add: preserves_def)
  then obtain evs where "\<forall>e \<in> set evs. is_Log e" "s1 = st\<lparr>trace := trace st @ evs\<rparr>"
    unfolding extends_by_def by blast
  with k that show ?thesis by blast
qed

lemma seq_log_InrE:
  assumes "seq (log_execution env t u) k st = (Inr y, st')"
  obtains evs where "\<forall>e \<in> set evs. is_Log e" and "k (st\<lparr>trace := trace st @ evs\<rparr>) = (Inr y, st')"
  using assms by (rule seq_logs_InrE) (rule preserves_log_execution)

lemma seq_add_InrE:
  assumes "seq (working_memory_add m) k st = (Inr y, st')"
  obtains "k (st\<lparr>working_memory := working_memory st @ [m]\<rparr>) = (Inr y, st')"
  using assms by (simp add: seq_def bind_def working_memory_add_def)

lemma bind_write_code_InrE:
  assumes "bind (write_code env cfg n ps ti u) f st = (Inr y, st')"
  obtains c where "memory st \<noteq> []"
    and "WriteAnalysisCode_run env (calls is_WriteCode st) (wac_args_of cfg n ps ti u st) = Inr c"
    and "f (c, WriteAnalysisCode)
           (st\<lparr>trace := trace st @ [WriteCode (wac_args_of cfg n ps ti u st) (Inr c)]\<rparr>) = (Inr y, st')"
proof -
  from assms obtain x s1 where w: "write_code env cfg n ps ti u st = (Inr x, s1)"
    and f: "f x s1 = (Inr y, st')" by (rule bind_InrE)
  obtain c cause where x: "x = (c, cause)" by (cases x)
  from write_code_Inr [OF w [unfolded x]] f x that show ?thesis by simp
qed

lemma bind_execute_InrE:
  assumes "bind (execute_code_run env c) f st = (Inr y, st')"
  obtains r ok where "ExecuteNbCode_run env (calls is_Execute st) c = Inr (r, ok)"
    and "f (r, ok) (st\<lparr>trace := trace st @ [Execute c (Inr (r, ok))]\<rparr>) = (Inr y, st')"
proof -
  from assms obtain x s1 where w: "execute_code_run env c st = (Inr x, s1)"
    and f: "f x s1 = (Inr y, st')" by (rule bind_InrE)
  obtain r ok where x: "x = (r, ok)" by (cases x)
  from execute_code_run_Inr [OF w [unfolded x]] f x that show ?thesis by simp
qed

lemma bind_review_InrE:
  assumes "bind (ask_review env) f st = (Inr y, st')"
  obtains x where "planner_ask_review env (calls is_AskReview st) = Inr x"
    and "f x (st\<lparr>trace := trace st @ [AskReview (Inr x)]\<rparr>) = (Inr y, st')"
proof -
  from assms obtain x s1 where w: "ask_review env st = (Inr x, s1)"
    and f: "f x s1 = (Inr y, st')" by (rule bind_InrE)
  from ask_review_Inr [OF w] f that show ?thesis by simp
qed

lemma attempt_Inr:
  assumes run: "attempt env cfg mr u ps ti v st = (Inr v', st')"
  shows "\<exists>c r ok new rv.
    memory st \<noteq> []
    \<and> WriteAnalysisCode_run env (calls is_WriteCode st) (wac_args_of cfg (counter v) ps ti u st) = Inr c
    \<and> ExecuteNbCode_run env (calls is_Execute st) c = Inr (r, ok)
    \<and> st' = st\<lparr>working_memory := working_memory st @ [code_message c, result_message r],
              trace := trace st @ new\<rparr>
    \<and> other_calls new = WriteCode (wac_args_of cfg (counter v) ps ti u st) (Inr c)
                          # Execute c (Inr (r, ok)) # rv
    \<and> code v' = Some c \<and> result v' = Some r \<and> success v' = ok
    \<and> (if \<not> ok \<and> counter v + 1 \<ge> mr
       then \<exists>x. planner_ask_review env (calls is_AskReview st) = Inr x \<and> rv = [AskReview (Inr x)]
              \<and> counter v' = (if str_in (CHANGE_WORDS_0 env) x then 0 else counter v + 1)
       else rv = [] \<and> counter v' = counter v + 1)"
  using run unfolding attempt_def
  apply (elim bind_write_code_InrE)
  apply (simp only: prod.case)
  apply (elim seq_log_InrE seq_add_InrE bind_execute_InrE)
  apply (simp only: prod.case)
  apply (erule seq_logs_InrE, rule preserves_result_logs)
  apply (elim seq_add_InrE)
  apply (simp only: Let_def split: if_splits)
  subgoal for c l1 l2 r ok l3
    apply (elim conjE bind_review_InrE)
    subgoal for x
      apply (rule exI [of _ c], rule exI [of _ r], rule exI [of _ ok])
      apply (rule exI [of _ "[WriteCode (wac_args_of cfg (counter v) ps ti u st) (Inr c)] @ l1 @ l2
                 @ [Execute c (Inr (r, ok))] @ l3 @ [AskReview (Inr x)]"])
      apply (rule exI [of _ "[AskReview (Inr x)]"])
      apply (simp add: returns_def calls_def filter_logs other_calls_append other_calls_logs code_message_def result_message_def)
      apply (auto simp: other_calls_def)
      done
    done
  subgoal for c l1 l2 r ok l3
      apply (rule exI [of _ c], rule exI [of _ r], rule exI [of _ ok])
      apply (rule exI [of _ "[WriteCode (wac_args_of cfg (counter v) ps ti u st) (Inr c)] @ l1 @ l2
                 @ [Execute c (Inr (r, ok))] @ l3"])
      apply (rule exI [of _ "[]"])
      apply (simp add: returns_def calls_def filter_logs other_calls_append other_calls_logs code_message_def result_message_def)
      apply (auto simp: other_calls_def)
      done
    done









subsection \<open>The retry loop\<close>



lemma example_prepare:
  "prepare (example_env ok review) example_config example_state
     = (Inr (''status'', []), example_state)"
  by (simp add: prepare_def tool_info_of_def check_data_def example_env_def example_config_def
        example_plan_def get_finished_tasks_def Let_def bind_def seq_def returns_def)


lemma attempt_messages:
  assumes "attempt env cfg mr u ps ti v st = (Inr v', st')"
  shows "\<exists>c r new. code v' = Some c \<and> result v' = Some r
           \<and> trace st' = trace st @ new
           \<and> working_memory st' = working_memory st @ [code_message c, result_message r]
           \<and> concat (map exchange new) = [code_message c, result_message r]
           \<and> length (filter is_Execute new) = 1"
proof -
  from attempt_Inr [OF assms] obtain c r ok new rv where
    s1: "st' = st\<lparr>working_memory := working_memory st @ [code_message c, result_message r],
                  trace := trace st @ new\<rparr>" and
    oc: "other_calls new = WriteCode (wac_args_of cfg (counter v) ps ti u st) (Inr c)
                          # Execute c (Inr (r, ok)) # rv" and
    v': "code v' = Some c" "result v' = Some r" and
    rv: "if \<not> ok \<and> counter v + 1 \<ge> mr
       then \<exists>x. planner_ask_review env (calls is_AskReview st) = Inr x \<and> rv = [AskReview (Inr x)]
              \<and> counter v' = (if str_in (CHANGE_WORDS_0 env) x then 0 else counter v + 1)
       else rv = [] \<and> counter v' = counter v + 1"
    by blast
  from rv have rv': "rv = [] \<or> (\<exists>x. rv = [AskReview (Inr x)])" by (auto split: if_splits)
  have "concat (map exchange new) = concat (map exchange (other_calls new))"
    by (simp add: exchange_other_calls)
  also have "\<dots> = [code_message c, result_message r]" using oc rv' by auto
  finally have e: "concat (map exchange new) = [code_message c, result_message r]" .
  have "filter is_Execute new = filter is_Execute (other_calls new)"
    by (simp add: filter_other_calls)
  also have "\<dots> = [Execute c (Inr (r, ok))]" using oc rv' by auto
  finally have "length (filter is_Execute new) = 1" by simp
  with s1 v' e show ?thesis by simp
qed

lemma retry_loop_messages:
  assumes "retry_loop env cfg mr u ps ti v st = Some y"
  shows "\<forall>v' st'. y = (Inr v', st') \<longrightarrow>
       (\<exists>new. trace st' = trace st @ new
          \<and> working_memory st' = working_memory st @ concat (map exchange new)
          \<and> length (concat (map exchange new)) = 2 * length (filter is_Execute new))"
  using assms
proof (rule retry_loop.raw_induct [rotated, where P = "\<lambda>env cfg mr u ps ti v st y.
     \<forall>v' st'. y = (Inr v', st') \<longrightarrow>
       (\<exists>new. trace st' = trace st @ new
          \<and> working_memory st' = working_memory st @ concat (map exchange new)
          \<and> length (concat (map exchange new)) = 2 * length (filter is_Execute new))"],
    goal_cases)
  case (1 loop env cfg mr u ps ti v st y)
  show ?case
  proof (intro allI impI)
    fix v' st'
    assume y: "y = (Inr v', st')"
    show "\<exists>new. trace st' = trace st @ new
          \<and> working_memory st' = working_memory st @ concat (map exchange new)
          \<and> length (concat (map exchange new)) = 2 * length (filter is_Execute new)"
    proof (cases "\<not> success v \<and> counter v < mr")
      case False
      with 1(2) y have "st' = st" by (simp split: if_splits)
      then show ?thesis by (intro exI [of _ "[]"]) simp
    next
      case True
      obtain ra s1 where a: "attempt env cfg mr u ps ti v st = (ra, s1)"
        by (cases "attempt env cfg mr u ps ti v st")
      show ?thesis
      proof (cases ra)
        case (Inl e)
        with 1(2) True a y show ?thesis by simp
      next
        case (Inr v1)
        with 1(2) True a have rec: "loop env cfg mr u ps ti v1 s1 = Some y" by simp
        from 1(1) [OF rec] y obtain new2 where
          n2: "trace st' = trace s1 @ new2"
              "working_memory st' = working_memory s1 @ concat (map exchange new2)"
              "length (concat (map exchange new2)) = 2 * length (filter is_Execute new2)"
          by blast
        from attempt_messages [OF a [unfolded Inr]] obtain c r new1 where
          n1: "trace s1 = trace st @ new1"
              "working_memory s1 = working_memory st @ [code_message c, result_message r]"
              "concat (map exchange new1) = [code_message c, result_message r]"
              "length (filter is_Execute new1) = 1"
          by blast
        show ?thesis
          by (rule exI [of _ "new1 @ new2"]) (simp add: n1 n2)
      qed
    qed
  qed
qed

text \<open>
  Claim C3. When an invocation of \<^verbatim>\<open>_write_and_exec_code\<close> returns, the working memory
  is the one the loop started with, followed, for each execution of the loop in the order
  of the trace, by the code message (role assistant) and right after it the result message
  (role user), whatever the success flag of the execution: \<open>2K\<close> messages for \<open>K\<close>
  executions. Likewise every single attempt that completes appends exactly this pair.
\<close>

theorem attempts_append_message_pairs:
  assumes "prepare env cfg st = (Inr (plan_status, tool_info), st0)"
    and "write_and_exec_code env cfg max_retry user_id st = Some (Inr t, st')"
  shows "(\<exists>new. trace st' = trace st0 @ new
            \<and> working_memory st' = working_memory st0 @ concat (map exchange new)
            \<and> length (concat (map exchange new)) = 2 * length (filter is_Execute new))
         \<and> (\<forall>v s v' s'. attempt env cfg max_retry user_id plan_status tool_info v s = (Inr v', s')
               \<longrightarrow> (\<exists>c r. code v' = Some c \<and> result v' = Some r
                      \<and> working_memory s' = working_memory s @ [code_message c, result_message r]))"
proof
  let ?v = "\<lparr>code = None, result = None, success = False, counter = 0\<rparr>"
  from assms obtain v' where
    l: "retry_loop env cfg max_retry user_id plan_status tool_info ?v st0 = Some (Inr v', st')"
    by (auto simp: write_and_exec_code_def return_triple_def returns_def raises_def
          split: option.splits sum.splits prod.splits)
  from retry_loop_messages [OF l]
  show "\<exists>new. trace st' = trace st0 @ new
            \<and> working_memory st' = working_memory st0 @ concat (map exchange new)
            \<and> length (concat (map exchange new)) = 2 * length (filter is_Execute new)"
    by blast
next
  show "\<forall>v s v' s'. attempt env cfg max_retry user_id plan_status tool_info v s = (Inr v', s')
               \<longrightarrow> (\<exists>c r. code v' = Some c \<and> result v' = Some r
                      \<and> working_memory s' = working_memory s @ [code_message c, result_message r])"
    using attempt_messages by blast
qed

lemma example_run:
  "write_and_exec_code (example_env (\<lambda>k. k = 1) ''no'') example_config 3 ''u'' example_state
     = Some (Inr (''fixed()'', ''Image saved to: a.png'', True),
             snd (the (write_and_exec_code (example_env (\<lambda>k. k = 1) ''no'') example_config 3
                         ''u'' example_state)))"
proof -
  let ?w = "write_and_exec_code (example_env (\<lambda>k. k = 1) ''no'') example_config 3 ''u''
              example_state"
  have a: "?w \<noteq> None" by code_simp
  have b: "fst (the ?w) = Inr (''fixed()'', ''Image saved to: a.png'', True)" by code_simp
  from a b show ?thesis by (cases ?w) auto
qed

lemma example_run_memory:
  "map content (working_memory (snd (the (write_and_exec_code
      (example_env (\<lambda>k. k = 1) ''no'') example_config 3 ''u'' example_state))))
   = [''draft()'', ''Traceback'', ''fixed()'', ''Image saved to: a.png'']"
  by code_simp

theorem attempts_append_message_pairs_witness:
  "\<exists>new. trace (snd (the (write_and_exec_code (example_env (\<lambda>k. k = 1) ''no'')
                               example_config 3 ''u'' example_state)))
            = trace example_state @ new
         \<and> working_memory (snd (the (write_and_exec_code (example_env (\<lambda>k. k = 1) ''no'')
                               example_config 3 ''u'' example_state)))
            = working_memory example_state @ concat (map exchange new)
         \<and> length (concat (map exchange new)) = 2 * length (filter is_Execute new)"
  by (rule attempts_append_message_pairs [OF example_prepare example_run, THEN conjunct1])

subsection \<open>The data-state checker\<close>

lemma check_data_cases:
  assumes "check_data env cfg st = (res, st')"
  shows "(\<not> check_data_triggered env cfg \<and> res = Inr () \<and> st' = st)
       \<or> (check_data_triggered env cfg \<and>
          (\<exists>g. CheckData_run env (calls is_CheckDataRun st) (planner_plan env) = g \<and>
            (case g of
               Inl e \<Rightarrow> res = Inl e \<and> st' = st\<lparr>trace := trace st @ [CheckDataRun (planner_plan env) g]\<rparr>
             | Inr c \<Rightarrow>
                 if strip c = [] then
                   res = Inr () \<and> st' = st\<lparr>trace := trace st @ [CheckDataRun (planner_plan env) g]\<rparr>
                 else
                   (\<exists>x. ExecuteNbCode_run env (calls is_Execute st) c = x \<and>
                     (case x of
                        Inl e \<Rightarrow> res = Inl e
                          \<and> st' = st\<lparr>trace := trace st @ [CheckDataRun (planner_plan env) g, Execute c x]\<rparr>
                      | Inr (r, ok) \<Rightarrow> res = Inr ()
                          \<and> st' = st\<lparr>trace := trace st @ [CheckDataRun (planner_plan env) g, Execute c x],
                                      working_memory := working_memory st
                                         @ (if ok then [data_info_message r] else [])\<rparr>)))))"
  using assms
  by (auto simp: check_data_def check_data_triggered_def check_data_run_def execute_code_run_def
        working_memory_add_def data_info_message_def calls_def
        Let_def seq_def bind_def record_event_def returns_def raises_def of_sum_def
        split: if_splits sum.splits prod.splits)

subsection \<open>Generator calls\<close>

lemma grows_by_refl: "grows_by Q st st"
  unfolding grows_by_def by (rule exI [of _ "[]"]) simp

lemma grows_by_trans:
  assumes "grows_by Q a b" and "grows_by Q b c"
  shows "grows_by Q a c"
proof -
  from assms obtain xs ys where
    "trace b = trace a @ xs" "\<forall>e \<in> set xs. Q e" "trace c = trace b @ ys" "\<forall>e \<in> set ys. Q e"
    unfolding grows_by_def by blast
  then have "trace c = trace a @ (xs @ ys) \<and> (\<forall>e \<in> set (xs @ ys). Q e)" by auto
  then show ?thesis unfolding grows_by_def by blast
qed

lemma grows_returns: "preserves (grows_by Q) (returns x)"
  by (simp add: preserves_def returns_def grows_by_refl)

lemma grows_bind:
  assumes "preserves (grows_by Q) m" and "\<And>x. preserves (grows_by Q) (f x)"
  shows "preserves (grows_by Q) (bind m f)"
  unfolding preserves_def
proof (intro allI impI)
  fix st r st'
  assume run: "bind m f st = (r, st')"
  obtain r1 s1 where m: "m st = (r1, s1)" by (cases "m st")
  have a: "grows_by Q st s1" using assms(1) m by (simp add: preserves_def)
  show "grows_by Q st st'"
  proof (cases r1)
    case (Inl e)
    with run m have "st' = s1" by (simp add: bind_def)
    with a show ?thesis by simp
  next
    case (Inr x)
    with run m have "f x s1 = (r, st')" by (simp add: bind_def)
    with assms(2) have "grows_by Q s1 st'" by (simp add: preserves_def)
    with a show ?thesis by (rule grows_by_trans)
  qed
qed

lemma grows_seq:
  "preserves (grows_by Q) m \<Longrightarrow> preserves (grows_by Q) k \<Longrightarrow> preserves (grows_by Q) (seq m k)"
  unfolding seq_def by (rule grows_bind)

lemma grows_add: "preserves (grows_by Q) (working_memory_add m)"
  unfolding preserves_def working_memory_add_def by (auto simp: grows_by_refl grows_by_def)

lemma grows_logs:
  assumes "preserves (extends_by is_Log) m" and "\<And>t u r. Q (Log t u r)"
  shows "preserves (grows_by Q) m"
  unfolding preserves_def
proof (intro allI impI)
  fix st r st'
  assume "m st = (r, st')"
  with assms(1) obtain evs where evs: "\<forall>e \<in> set evs. is_Log e" "st' = st\<lparr>trace := trace st @ evs\<rparr>"
    unfolding preserves_def extends_by_def by blast
  have "Q e" if "e \<in> set evs" for e
  proof -
    from that evs(1) have "is_Log e" by simp
    then obtain t u r where "e = Log t u r" by (cases e) simp_all
    with assms(2) show ?thesis by simp
  qed
  with evs(2) show "grows_by Q st st'" unfolding grows_by_def by auto
qed

lemma grows_execute: "(\<And>r. Q (Execute c r)) \<Longrightarrow> preserves (grows_by Q) (execute_code_run env c)"
  unfolding execute_code_run_def Let_def preserves_def
  by (auto simp: seq_def bind_def record_event_def of_sum_def returns_def raises_def grows_by_def
        split: sum.splits)

lemma grows_review: "(\<And>r. Q (AskReview r)) \<Longrightarrow> preserves (grows_by Q) (ask_review env)"
  unfolding ask_review_def Let_def preserves_def
  by (auto simp: seq_def bind_def record_event_def of_sum_def returns_def raises_def grows_by_def
        split: sum.splits)

lemma grows_write_code:
  assumes "\<And>a r. arg_use_reflection a = (0 < n \<and> use_reflection cfg) \<Longrightarrow> Q (WriteCode a r)"
  shows "preserves (grows_by Q) (write_code env cfg n ps ti u)"
  unfolding write_code_def rc_todo_def todo_run_def Let_def preserves_def
  using assms
  by (auto simp: seq_def bind_def record_event_def of_sum_def returns_def raises_def grows_by_def
        split: sum.splits if_splits)

lemma attempt_grows:
  assumes "\<And>a r. arg_use_reflection a = (0 < counter v \<and> use_reflection cfg) \<Longrightarrow> Q (WriteCode a r)"
    and "\<And>t u r. Q (Log t u r)" and "\<And>c r. Q (Execute c r)" and "\<And>r. Q (AskReview r)"
  shows "preserves (grows_by Q) (attempt env cfg mr u ps ti v)"
  unfolding attempt_def Let_def
  by (auto intro!: grows_bind grows_seq grows_write_code grows_execute grows_review grows_add
        grows_returns grows_logs [OF preserves_log_execution] grows_logs [OF preserves_extract]
        assms)

lemma retry_loop_grows:
  assumes "retry_loop env cfg mr u ps ti v st = Some y"
  shows "grows_by (\<lambda>e. True) st (snd y)"
  using assms
proof (rule retry_loop.raw_induct [rotated, where P = "\<lambda>env cfg mr u ps ti v st y.
     grows_by (\<lambda>e. True) st (snd y)"], goal_cases)
  case (1 loop env cfg mr u ps ti v st y)
  show ?case
  proof (cases "\<not> success v \<and> counter v < mr")
    case False
    with 1(2) have "snd y = st" by (auto split: if_splits)
    then show ?thesis by (simp add: grows_by_refl)
  next
    case True
    obtain ra s1 where a: "attempt env cfg mr u ps ti v st = (ra, s1)"
      by (cases "attempt env cfg mr u ps ti v st")
    have g: "grows_by (\<lambda>e. True) st s1"
      using attempt_grows [of v cfg "\<lambda>e. True" env mr u ps ti] a by (simp add: preserves_def)
    show ?thesis
    proof (cases ra)
      case (Inl e)
      with 1(2) True a have "snd y = s1" by auto
      with g show ?thesis by simp
    next
      case (Inr v1)
      with 1(2) True a have "loop env cfg mr u ps ti v1 s1 = Some y" by simp
      then have "grows_by (\<lambda>e. True) s1 (snd y)" by (rule 1(1))
      with g show ?thesis by (rule grows_by_trans)
    qed
  qed
qed

lemma first_generator_call:
  assumes run: "retry_loop env cfg mr u ps ti v st = Some y" and zero: "counter v = 0"
  shows "\<exists>new. trace (snd y) = trace st @ new
           \<and> (\<forall>a r. filter is_WriteCode new \<noteq> [] \<longrightarrow> hd (filter is_WriteCode new) = WriteCode a r
                 \<longrightarrow> \<not> arg_use_reflection a)"
proof (cases "\<not> success v \<and> counter v < mr")
  case False
  with run have "snd y = st" by (subst (asm) retry_loop.simps) auto
  then show ?thesis by (intro exI [of _ "[]"]) simp
next
  case True
  let ?Q = "\<lambda>e. \<forall>a r. e = WriteCode a r \<longrightarrow> \<not> arg_use_reflection a"
  obtain ra s1 where a: "attempt env cfg mr u ps ti v st = (ra, s1)"
    by (cases "attempt env cfg mr u ps ti v st")
  have "preserves (grows_by ?Q) (attempt env cfg mr u ps ti v)"
    by (rule attempt_grows) (simp_all add: zero)
  with a obtain new1 where n1: "trace s1 = trace st @ new1" "\<forall>e \<in> set new1. ?Q e"
    unfolding preserves_def grows_by_def by blast
  have hd1: "\<not> arg_use_reflection a"
    if "filter is_WriteCode new1 \<noteq> []" "hd (filter is_WriteCode new1) = WriteCode a r" for a r
  proof -
    from that(1) have "hd (filter is_WriteCode new1) \<in> set (filter is_WriteCode new1)"
      by (rule hd_in_set)
    with that(2) have "WriteCode a r \<in> set new1" by simp
    with n1(2) show ?thesis by blast
  qed
  show ?thesis
  proof (cases ra)
    case (Inl e)
    with run True a have "snd y = s1" by (subst (asm) retry_loop.simps) auto
    with n1(1) hd1 show ?thesis by (intro exI [of _ new1]) simp
  next
    case (Inr v1)
    with run True a have rec: "retry_loop env cfg mr u ps ti v1 s1 = Some y"
      by (subst (asm) retry_loop.simps) simp
    from retry_loop_grows [OF rec] obtain new2 where n2: "trace (snd y) = trace s1 @ new2"
      unfolding grows_by_def by blast
    from attempt_Inr [OF a [unfolded Inr]] obtain c r ok new rv where
      s1: "s1 = st\<lparr>working_memory := working_memory st @ [code_message c, result_message r],
                  trace := trace st @ new\<rparr>" and
      oc: "other_calls new = WriteCode (wac_args_of cfg (counter v) ps ti u st) (Inr c)
                          # Execute c (Inr (r, ok)) # rv"
      by blast
    from s1 n1(1) have "new = new1" by simp
    with oc have "filter is_WriteCode (other_calls new1) \<noteq> []" by simp
    then have ne: "filter is_WriteCode new1 \<noteq> []" by (simp add: filter_other_calls)
    show ?thesis
      using n1(1) n2 ne hd1 by (intro exI [of _ "new1 @ new2"]) simp
  qed
qed

text \<open>
  Claim C5. Every call of the generator made by an attempt of the retry loop carries the
  reflection flag exactly when the attempt counter is positive and \<^verbatim>\<open>use_reflection\<close> is
  set; and in every invocation of \<^verbatim>\<open>_write_and_exec_code\<close> that returns or raises, the
  first generator call of the loop, if there is one, is not reflective.
\<close>

theorem reflective_iff_retry_and_enabled:
  "(\<forall>v st res st'.
      attempt env cfg max_retry user_id plan_status tool_info v st = (res, st') \<longrightarrow>
      (\<exists>new. trace st' = trace st @ new
         \<and> (\<forall>a r. WriteCode a r \<in> set new \<longrightarrow>
               (arg_use_reflection a \<longleftrightarrow> 0 < counter v \<and> use_reflection cfg))))
   \<and> (\<forall>st y.
        write_and_exec_code env cfg max_retry user_id st = Some y \<longrightarrow>
        (\<exists>new. trace (snd y) = trace (snd (prepare env cfg st)) @ new
           \<and> (\<forall>a r. filter is_WriteCode new \<noteq> [] \<longrightarrow> hd (filter is_WriteCode new) = WriteCode a r
                 \<longrightarrow> \<not> arg_use_reflection a)))"
proof (intro conjI allI impI)
  fix v st res st'
  assume a: "attempt env cfg max_retry user_id plan_status tool_info v st = (res, st')"
  let ?Q = "\<lambda>e. \<forall>a r. e = WriteCode a r \<longrightarrow>
              (arg_use_reflection a \<longleftrightarrow> 0 < counter v \<and> use_reflection cfg)"
  have "preserves (grows_by ?Q) (attempt env cfg max_retry user_id plan_status tool_info v)"
    by (rule attempt_grows) simp_all
  with a obtain new where "trace st' = trace st @ new" "\<forall>e \<in> set new. ?Q e"
    unfolding preserves_def grows_by_def by blast
  then show "\<exists>new. trace st' = trace st @ new
         \<and> (\<forall>a r. WriteCode a r \<in> set new \<longrightarrow>
               (arg_use_reflection a \<longleftrightarrow> 0 < counter v \<and> use_reflection cfg))"
    by blast
next
  fix st y
  assume w: "write_and_exec_code env cfg max_retry user_id st = Some y"
  obtain rp st0 where p: "prepare env cfg st = (rp, st0)" by (cases "prepare env cfg st")
  show "\<exists>new. trace (snd y) = trace (snd (prepare env cfg st)) @ new
           \<and> (\<forall>a r. filter is_WriteCode new \<noteq> [] \<longrightarrow> hd (filter is_WriteCode new) = WriteCode a r
                 \<longrightarrow> \<not> arg_use_reflection a)"
  proof (cases rp)
    case (Inl e)
    with w p have "snd y = st0" by (auto simp: write_and_exec_code_def)
    with p show ?thesis by (intro exI [of _ "[]"]) simp
  next
    case (Inr pt)
    obtain ps ti where pt: "pt = (ps, ti)" by (cases pt)
    let ?v = "\<lparr>code = None, result = None, success = False, counter = 0\<rparr>"
    from w p Inr pt obtain y' where
      l: "retry_loop env cfg max_retry user_id ps ti ?v st0 = Some y'" and
      y: "snd y = snd y'"
      by (auto simp: write_and_exec_code_def return_triple_def returns_def raises_def
            split: option.splits sum.splits prod.splits)
    from first_generator_call [OF l] y p show ?thesis by simp
  qed
qed

lemma example_second_attempt:
  "filter is_WriteCode (trace (snd (attempt (example_env (\<lambda>k. True) ''no'') example_config 3 ''u''
       ''status'' [] \<lparr>code = None, result = None, success = False, counter = 1\<rparr> example_state)))
   = [WriteCode \<lparr>arg_user_requirement = ''fit a regression'', arg_plan_status = ''status'',
                 arg_tool_info = [], arg_working_memory = [], arg_use_reflection = True,
                 arg_user_id = ''u''\<rparr> (Inr ''fixed()'')]"
  by code_simp

theorem reflective_iff_retry_and_enabled_witness:
  "\<exists>new. trace (snd (attempt (example_env (\<lambda>k. True) ''no'') example_config 3 ''u''
       ''status'' [] \<lparr>code = None, result = None, success = False, counter = 1\<rparr> example_state))
      = trace example_state @ new
    \<and> filter is_WriteCode new
      = [WriteCode \<lparr>arg_user_requirement = ''fit a regression'', arg_plan_status = ''status'',
                 arg_tool_info = [], arg_working_memory = [], arg_use_reflection = True,
                 arg_user_id = ''u''\<rparr> (Inr ''fixed()'')]"
proof -
  let ?v = "\<lparr>code = None, result = None, success = False, counter = 1\<rparr>"
  let ?a = "attempt (example_env (\<lambda>k. True) ''no'') example_config 3 ''u'' ''status'' [] ?v
              example_state"
  have "?a = (fst ?a, snd ?a)" by simp
  with reflective_iff_retry_and_enabled
    [of "example_env (\<lambda>k. True) ''no''" example_config 3 "''u''" "''status''" "[]"]
  obtain new where n: "trace (snd ?a) = trace example_state @ new"
    "\<forall>a r. WriteCode a r \<in> set new \<longrightarrow>
        (arg_use_reflection a \<longleftrightarrow> 0 < counter ?v \<and> use_reflection example_config)"
    by blast
  from n(1) example_second_attempt have "filter is_WriteCode new
      = [WriteCode \<lparr>arg_user_requirement = ''fit a regression'', arg_plan_status = ''status'',
                 arg_tool_info = [], arg_working_memory = [], arg_use_reflection = True,
                 arg_user_id = ''u''\<rparr> (Inr ''fixed()'')]"
    by (simp add: example_state_def)
  with n show ?thesis by (auto simp: example_config_def)
qed

subsection \<open>The review gate\<close>

text \<open>
  Claim C8. An attempt of the loop that fails when the retries are exhausted asks the
  reviewer once. When the answer contains the change word, the counter is back at 0 and
  the loop goes on with a further attempt from there; otherwise the loop ends, and the
  function returns the code and result of this last attempt with the flag false.
\<close>

theorem review_resets_or_ends:
  assumes "\<not> success v" and "0 \<le> counter v" and "counter v < max_retry"
    and "attempt env cfg max_retry user_id plan_status tool_info v st = (Inr v', st')"
    and "\<not> success v'"
    and "max_retry \<le> counter v + 1"
  shows "\<exists>review c r new.
      trace st' = trace st @ new
      \<and> planner_ask_review env (calls is_AskReview st) = Inr review
      \<and> filter is_AskReview new = [AskReview (Inr review)]
      \<and> filter is_Execute new = [Execute c (Inr (r, False))]
      \<and> code v' = Some c \<and> result v' = Some r
      \<and> (if str_in (CHANGE_WORDS_0 env) review
         then counter v' = 0
            \<and> retry_loop env cfg max_retry user_id plan_status tool_info v st
               = (case attempt env cfg max_retry user_id plan_status tool_info v' st' of
                    (Inl e, s) \<Rightarrow> Some (Inl e, s)
                  | (Inr v'', s) \<Rightarrow>
                      retry_loop env cfg max_retry user_id plan_status tool_info v'' s)
         else retry_loop env cfg max_retry user_id plan_status tool_info v st
                = Some (Inr v', st')
            \<and> return_triple v' st' = (Inr (c, r, False), st'))"
proof -
  from attempt_Inr [OF assms(4)] obtain c r ok new rv where
    s1: "st' = st\<lparr>working_memory := working_memory st @ [code_message c, result_message r],
                  trace := trace st @ new\<rparr>" and
    oc: "other_calls new = WriteCode (wac_args_of cfg (counter v) plan_status tool_info user_id st)
                             (Inr c) # Execute c (Inr (r, ok)) # rv" and
    v': "code v' = Some c" "result v' = Some r" "success v' = ok" and
    rv: "if \<not> ok \<and> counter v + 1 \<ge> max_retry
       then \<exists>x. planner_ask_review env (calls is_AskReview st) = Inr x \<and> rv = [AskReview (Inr x)]
              \<and> counter v' = (if str_in (CHANGE_WORDS_0 env) x then 0 else counter v + 1)
       else rv = [] \<and> counter v' = counter v + 1"
    by blast
  from v'(3) assms(5) have ok: "\<not> ok" by simp
  with rv assms(6) obtain x where
    x: "planner_ask_review env (calls is_AskReview st) = Inr x" "rv = [AskReview (Inr x)]"
       "counter v' = (if str_in (CHANGE_WORDS_0 env) x then 0 else counter v + 1)"
    by auto
  have f1: "filter is_Execute new = [Execute c (Inr (r, False))]"
    using oc ok x(2) filter_other_calls [of is_Execute new] by simp
  have f2: "filter is_AskReview new = [AskReview (Inr x)]"
    using oc x(2) filter_other_calls [of is_AskReview new] by simp
  have step: "retry_loop env cfg max_retry user_id plan_status tool_info v st
                = retry_loop env cfg max_retry user_id plan_status tool_info v' st'"
    using assms(1,3,4) by (subst retry_loop.simps) simp
  show ?thesis
  proof (cases "str_in (CHANGE_WORDS_0 env) x")
    case True
    with x(3) have c0: "counter v' = 0" by simp
    with assms(2,3,5) have "\<not> success v' \<and> counter v' < max_retry" by simp
    then have "retry_loop env cfg max_retry user_id plan_status tool_info v' st'
               = (case attempt env cfg max_retry user_id plan_status tool_info v' st' of
                    (Inl e, s) \<Rightarrow> Some (Inl e, s)
                  | (Inr v'', s) \<Rightarrow>
                      retry_loop env cfg max_retry user_id plan_status tool_info v'' s)"
      by (subst retry_loop.simps) simp
    with step True c0 s1 x(1) f1 f2 v' show ?thesis
      by (intro exI [of _ x] exI [of _ c] exI [of _ r] exI [of _ new]) simp
  next
    case False
    with x(3) assms(6) have "\<not> counter v' < max_retry" by simp
    then have "retry_loop env cfg max_retry user_id plan_status tool_info v' st'
                 = Some (Inr v', st')"
      by (subst retry_loop.simps) simp
    moreover have "return_triple v' st' = (Inr (c, r, False), st')"
      using v' ok by (simp add: return_triple_def returns_def)
    ultimately show ?thesis using step False s1 x(1) f1 f2 v'
      by (intro exI [of _ x] exI [of _ c] exI [of _ r] exI [of _ new]) simp
  qed
qed

lemma example_last_attempt:
  "fst (attempt (example_env (\<lambda>k. False) ''please change the model'') example_config 1 ''u''
          ''status'' [] \<lparr>code = None, result = None, success = False, counter = 0\<rparr> example_state)
   = Inr \<lparr>code = Some ''draft()'', result = Some ''Traceback'', success = False, counter = 0\<rparr>"
  by code_simp

theorem review_resets_or_ends_witness:
  "\<exists>review c r new st'.
      trace st' = trace example_state @ new
      \<and> planner_ask_review (example_env (\<lambda>k. False) ''please change the model'')
           (calls is_AskReview example_state) = Inr review
      \<and> filter is_AskReview new = [AskReview (Inr review)]
      \<and> filter is_Execute new = [Execute c (Inr (r, False))]
      \<and> str_in (CHANGE_WORDS_0 (example_env (\<lambda>k. False) ''please change the model'')) review
      \<and> retry_loop (example_env (\<lambda>k. False) ''please change the model'') example_config 1 ''u''
          ''status'' [] \<lparr>code = None, result = None, success = False, counter = 0\<rparr> example_state
         = (case attempt (example_env (\<lambda>k. False) ''please change the model'') example_config 1
                   ''u'' ''status'' []
                   \<lparr>code = Some ''draft()'', result = Some ''Traceback'', success = False,
                      counter = 0\<rparr> st' of
              (Inl e, s) \<Rightarrow> Some (Inl e, s)
            | (Inr v'', s) \<Rightarrow>
                retry_loop (example_env (\<lambda>k. False) ''please change the model'') example_config 1
                  ''u'' ''status'' [] v'' s)"
proof -
  let ?env = "example_env (\<lambda>k. False) ''please change the model''"
  let ?v = "\<lparr>code = None, result = None, success = False, counter = 0\<rparr>"
  let ?v' = "\<lparr>code = Some ''draft()'', result = Some ''Traceback'', success = False, counter = 0\<rparr>"
  let ?a = "attempt ?env example_config 1 ''u'' ''status'' [] ?v example_state"
  have run: "?a = (Inr ?v', snd ?a)" using example_last_attempt by (simp add: prod_eq_iff)
  have "\<exists>review c r new.
      trace (snd ?a) = trace example_state @ new
      \<and> planner_ask_review ?env (calls is_AskReview example_state) = Inr review
      \<and> filter is_AskReview new = [AskReview (Inr review)]
      \<and> filter is_Execute new = [Execute c (Inr (r, False))]
      \<and> code ?v' = Some c \<and> result ?v' = Some r
      \<and> (if str_in (CHANGE_WORDS_0 ?env) review
         then counter ?v' = 0
            \<and> retry_loop ?env example_config 1 ''u'' ''status'' [] ?v example_state
               = (case attempt ?env example_config 1 ''u'' ''status'' [] ?v' (snd ?a) of
                    (Inl e, s) \<Rightarrow> Some (Inl e, s)
                  | (Inr v'', s) \<Rightarrow> retry_loop ?env example_config 1 ''u'' ''status'' [] v'' s)
         else retry_loop ?env example_config 1 ''u'' ''status'' [] ?v example_state
                = Some (Inr ?v', snd ?a)
            \<and> return_triple ?v' (snd ?a) = (Inr (c, r, False), snd ?a))"
    by (rule review_resets_or_ends [OF _ _ _ run]) simp_all
  then obtain review c r new where
    w: "trace (snd ?a) = trace example_state @ new"
       "planner_ask_review ?env (calls is_AskReview example_state) = Inr review"
       "filter is_AskReview new = [AskReview (Inr review)]"
       "filter is_Execute new = [Execute c (Inr (r, False))]"
       "if str_in (CHANGE_WORDS_0 ?env) review
         then counter ?v' = 0
            \<and> retry_loop ?env example_config 1 ''u'' ''status'' [] ?v example_state
               = (case attempt ?env example_config 1 ''u'' ''status'' [] ?v' (snd ?a) of
                    (Inl e, s) \<Rightarrow> Some (Inl e, s)
                  | (Inr v'', s) \<Rightarrow> retry_loop ?env example_config 1 ''u'' ''status'' [] v'' s)
         else retry_loop ?env example_config 1 ''u'' ''status'' [] ?v example_state
                = Some (Inr ?v', snd ?a)
            \<and> return_triple ?v' (snd ?a) = (Inr (c, r, False), snd ?a)"
    by blast
  from w(2) have rev: "review = ''please change the model''" by (simp add: example_env_def)
  have chg: "str_in (CHANGE_WORDS_0 ?env) review" unfolding rev by (simp add: example_env_def)
  with w show ?thesis
    by (intro exI [of _ review] exI [of _ c] exI [of _ r] exI [of _ new] exI [of _ "snd ?a"]) simp
qed

subsection \<open>The reactive decision step\<close>

text \<open>
  Claim C6. With an empty working memory \<^verbatim>\<open>_think\<close> returns true, whatever the
  language model would answer: it copies the requirement into the working memory, selects
  action 0 and leaves the trace as it is, so the model is not consulted. The role's
  memory holds the requirement, as it does whenever the role reacts to a message.
\<close>

theorem think_forces_first_action:
  assumes "working_memory st = []" and "memory st \<noteq> []"
  shows "think env st = (Inr True, st\<lparr>working_memory := [hd (memory st)], rc_state := 0\<rparr>)
         \<and> trace (snd (think env st)) = trace st
         \<and> calls is_Aask (snd (think env st)) = calls is_Aask st"
proof -
  from assms(2) obtain m0 ms where m: "memory st = m0 # ms" by (cases "memory st") auto
  have "think env st = (Inr True, st\<lparr>working_memory := [hd (memory st)], rc_state := 0\<rparr>)"
    using assms(1) m
    by (simp add: think_def seq_def bind_def working_memory_add_def set_state_def returns_def)
  then show ?thesis by (simp add: calls_def)
qed

theorem think_forces_first_action_witness:
  "think (example_env (\<lambda>k. True) ''no'') example_state
     = (Inr True, example_state\<lparr>working_memory := [hd (memory example_state)], rc_state := 0\<rparr>)
   \<and> trace (snd (think (example_env (\<lambda>k. True) ''no'') example_state)) = trace example_state
   \<and> calls is_Aask (snd (think (example_env (\<lambda>k. True) ''no'') example_state))
       = calls is_Aask example_state"
  by (rule think_forces_first_action) (simp_all add: example_state_def)

subsection \<open>Teardown in \<^verbatim>\<open>_plan_and_act\<close>\<close>

text \<open>
  Claim C7, as stated, fails: the handler is \<^verbatim>\<open>except Exception\<close>, and a cancellation of
  the task is not an instance of \<^verbatim>\<open>Exception\<close>; it leaves \<^verbatim>\<open>_plan_and_act\<close> without a
  call of \<^verbatim>\<open>terminate\<close>.
\<close>

theorem cancellation_skips_terminate:
  "plan_and_act cancelled_super (example_env (\<lambda>k. True) ''no'') ''u'' example_state
     = Some (Inl (BaseException ''CancelledError''), example_state)
   \<and> filter is_Terminate (trace example_state) = []"
  by (simp add: plan_and_act_def cancelled_super_def example_state_def)

text \<open>
  Claim C7, amended. When the plan-and-act loop of the base class raises an instance of
  \<^verbatim>\<open>Exception\<close>, \<^verbatim>\<open>_plan_and_act\<close> calls \<^verbatim>\<open>terminate\<close> on the execution backend, as the
  next call after everything the loop did, and only then raises: the same exception when
  \<^verbatim>\<open>terminate\<close> returns, the exception of \<^verbatim>\<open>terminate\<close> when that call raises.
\<close>

theorem exception_terminates_backend_first:
  assumes "super_plan_and_act user_id st = Some (Inl (Exception s), st1)"
  shows "plan_and_act super_plan_and_act env user_id st
         = Some (Inl (case ExecuteNbCode_terminate env (calls is_Terminate st1) of
                        None \<Rightarrow> Exception s | Some e \<Rightarrow> e),
                 st1\<lparr>trace := trace st1
                          @ [Terminate (ExecuteNbCode_terminate env (calls is_Terminate st1))]\<rparr>)"
  using assms
  by (simp add: plan_and_act_def execute_code_terminate_def Let_def seq_def bind_def
        record_event_def returns_def raises_def split: option.splits)

theorem exception_terminates_backend_first_witness:
  "plan_and_act failing_super (example_env (\<lambda>k. True) ''no'') ''u'' example_state
     = Some (Inl (Exception ''RuntimeError''),
             example_state\<lparr>trace := trace example_state @ [Terminate None]\<rparr>)"
  using exception_terminates_backend_first
    [of failing_super "''u''" example_state "''RuntimeError''" example_state
        "example_env (\<lambda>k. True) ''no''"]
  by (simp add: failing_super_def example_env_def)

subsection \<open>Failures of the logging sink\<close>


subsection \<open>What the data-state checker appends\<close>

text \<open>
  Claim C4. \<^verbatim>\<open>_check_data\<close> appends a message to the working memory if and only if
  planning is enabled, some task is finished, the current task is of the data-preprocessing
  type, and the inspection code is run and the backend reports success for it (the
  generator has returned code that is not blank and the backend answers it with the flag
  true). In that case the checker calls the generator, then the backend, appends the
  data-info message built from the output, and returns. When the backend reports failure
  for the inspection code, the checker has made the same two calls, returns normally and
  leaves the working memory as it was.
\<close>

theorem check_data_appends_iff:
  assumes "check_data env cfg st = (res, st')"
  shows "(working_memory st' \<noteq> working_memory st \<longleftrightarrow>
            use_plan cfg \<and> get_finished_tasks (planner_plan env) \<noteq> []
            \<and> task_type (current_task (planner_plan env)) = DATA_PREPROCESS_type_name env
            \<and> (\<exists>c r. CheckData_run env (calls is_CheckDataRun st) (planner_plan env) = Inr c
                   \<and> strip c \<noteq> []
                   \<and> ExecuteNbCode_run env (calls is_Execute st) c = Inr (r, True)))
       \<and> (\<forall>c r ok.
             use_plan cfg \<and> get_finished_tasks (planner_plan env) \<noteq> []
             \<and> task_type (current_task (planner_plan env)) = DATA_PREPROCESS_type_name env
             \<and> CheckData_run env (calls is_CheckDataRun st) (planner_plan env) = Inr c
             \<and> strip c \<noteq> []
             \<and> ExecuteNbCode_run env (calls is_Execute st) c = Inr (r, ok)
             \<longrightarrow> res = Inr ()
               \<and> st' = st\<lparr>trace := trace st @ [CheckDataRun (planner_plan env) (Inr c),
                                                Execute c (Inr (r, ok))],
                           working_memory := working_memory st
                              @ (if ok then [data_info_message r] else [])\<rparr>)"
proof -
  note c = check_data_cases [OF assms, unfolded check_data_triggered_def]
  let ?due = "use_plan cfg \<and> get_finished_tasks (planner_plan env) \<noteq> []
            \<and> task_type (current_task (planner_plan env)) = DATA_PREPROCESS_type_name env"
  let ?g = "CheckData_run env (calls is_CheckDataRun st) (planner_plan env)"
  show ?thesis
  proof (cases ?due)
    case False
    with c have "st' = st" by auto
    with False show ?thesis by auto
  next
    case True
    show ?thesis
    proof (cases ?g)
      case (Inl e)
      with c True have "st' = st\<lparr>trace := trace st @ [CheckDataRun (planner_plan env) ?g]\<rparr>"
        by auto
      with Inl show ?thesis by auto
    next
      case (Inr code)
      show ?thesis
      proof (cases "strip code = []")
        case blank: True
        with c True Inr
        have "st' = st\<lparr>trace := trace st @ [CheckDataRun (planner_plan env) ?g]\<rparr>"
          by auto
        with Inr blank show ?thesis by auto
      next
        case nonblank: False
        let ?x = "ExecuteNbCode_run env (calls is_Execute st) code"
        show ?thesis
        proof (cases ?x)
          case xl: (Inl e)
          with c True Inr nonblank
          have "st' = st\<lparr>trace := trace st @ [CheckDataRun (planner_plan env) ?g, Execute code ?x]\<rparr>"
            by auto
          with Inr xl show ?thesis by auto
        next
          case xr: (Inr p)
          obtain r ok where p: "p = (r, ok)" by (cases p)
          from c True Inr nonblank xr p
          have res: "res = Inr ()" and
            st': "st' = st\<lparr>trace := trace st @ [CheckDataRun (planner_plan env) ?g, Execute code ?x],
                           working_memory := working_memory st
                              @ (if ok then [data_info_message r] else [])\<rparr>"
            by auto
          show ?thesis using True res st' Inr nonblank xr p by auto
        qed
      qed
    qed
  qed
qed

theorem check_data_appends_iff_witness:
  "fst (check_data ((example_env (\<lambda>k. True) ''no'')\<lparr>planner_plan := example_preprocess_plan\<rparr>)
          example_config example_state) = Inr ()
   \<and> snd (check_data ((example_env (\<lambda>k. True) ''no'')\<lparr>planner_plan := example_preprocess_plan\<rparr>)
          example_config example_state)
     = example_state
        \<lparr>trace := trace example_state
            @ [CheckDataRun example_preprocess_plan (Inr ''print(df.columns)''),
               Execute ''print(df.columns)'' (Inr (''Image saved to: a.png'', True))],
         working_memory := working_memory example_state
            @ [data_info_message ''Image saved to: a.png'']\<rparr>"
proof -
  let ?env = "(example_env (\<lambda>k. True) ''no'')\<lparr>planner_plan := example_preprocess_plan\<rparr>"
  let ?r = "check_data ?env example_config example_state"
  have run: "?r = (fst ?r, snd ?r)" by simp
  have nonblank: "strip ''print(df.columns)'' \<noteq> []" by code_simp
  have h: "use_plan example_config \<and> get_finished_tasks (planner_plan ?env) \<noteq> []
      \<and> task_type (current_task (planner_plan ?env)) = DATA_PREPROCESS_type_name ?env
      \<and> CheckData_run ?env (calls is_CheckDataRun example_state) (planner_plan ?env)
          = Inr ''print(df.columns)''
      \<and> strip ''print(df.columns)'' \<noteq> []
      \<and> ExecuteNbCode_run ?env (calls is_Execute example_state) ''print(df.columns)''
          = Inr (''Image saved to: a.png'', True)"
    using nonblank
    by (simp add: example_config_def example_env_def example_preprocess_plan_def
          get_finished_tasks_def)
  from check_data_appends_iff [OF run, THEN conjunct2, rule_format, OF h]
  show ?thesis by (simp add: example_env_def)
qed

subsection \<open>Blank inspection code\<close>

lemma not_space1_of_space2: "is_space2 a b \<Longrightarrow> \<not> is_space1 a"
  by (auto simp: is_space1_def is_space2_def)

lemma not_space1_of_space3: "is_space3 a b c \<Longrightarrow> \<not> is_space1 a"
  by (auto simp: is_space1_def is_space3_def)

lemma not_space2_of_space3: "is_space3 a b c \<Longrightarrow> \<not> is_space2 a b"
  by (auto simp: is_space2_def is_space3_def)

lemma lstrip_one: "is_space1 a \<Longrightarrow> lstrip (a # s) = lstrip s"
  by (cases s rule: lstrip.cases) auto

lemma lstrip_two: "is_space2 a b \<Longrightarrow> lstrip (a # b # s) = lstrip s"
  by (cases s) (auto simp: not_space1_of_space2)

lemma lstrip_three: "is_space3 a b c \<Longrightarrow> lstrip (a # b # c # s) = lstrip s"
  by (auto simp: not_space1_of_space3 not_space2_of_space3)

lemma only_whitespace_strip:
  assumes "only_whitespace s"
  shows "strip s = []"
proof -
  from assms have "lstrip s = []"
  proof (induction rule: only_whitespace.induct)
    case empty
    show ?case by simp
  next
    case (one a s)
    then show ?case by (simp only: lstrip_one)
  next
    case (two a b s)
    then show ?case by (simp only: lstrip_two)
  next
    case (three a b c s)
    then show ?case by (simp only: lstrip_three)
  qed
  then show ?thesis by (simp add: strip_def)
qed

text \<open>
  Claim C10. When the generated inspection code is empty or consists of whitespace
  characters only, \<^verbatim>\<open>_check_data\<close> returns without calling the execution backend: the
  state it leaves differs from the one it found by the trace entry of the generation call
  alone (and by nothing when the check is not due), so the working memory is unchanged.
\<close>

theorem blank_inspection_code_skips_execution:
  assumes "CheckData_run env (calls is_CheckDataRun st) (planner_plan env) = Inr c"
    and "only_whitespace c"
  shows "check_data env cfg st
         = (Inr (), st\<lparr>trace := trace st
                      @ (if use_plan cfg \<and> get_finished_tasks (planner_plan env) \<noteq> []
                            \<and> task_type (current_task (planner_plan env))
                                = DATA_PREPROCESS_type_name env
                         then [CheckDataRun (planner_plan env) (Inr c)] else [])\<rparr>)
       \<and> filter is_Execute (trace (snd (check_data env cfg st))) = filter is_Execute (trace st)
       \<and> working_memory (snd (check_data env cfg st)) = working_memory st"
proof -
  obtain res st' where r: "check_data env cfg st = (res, st')"
    by (cases "check_data env cfg st")
  from assms(2) have blank: "strip c = []" by (rule only_whitespace_strip)
  show ?thesis
  proof (cases "check_data_triggered env cfg")
    case False
    with check_data_cases [OF r] have "res = Inr ()" "st' = st" by auto
    with r False show ?thesis by (simp add: check_data_triggered_def)
  next
    case True
    with check_data_cases [OF r] assms(1) blank
    have "res = Inr ()"
      "st' = st\<lparr>trace := trace st @ [CheckDataRun (planner_plan env) (Inr c)]\<rparr>"
      by auto
    with r True show ?thesis by (simp add: check_data_triggered_def)
  qed
qed

theorem blank_inspection_code_skips_execution_witness:
  "check_data ((example_env (\<lambda>k. True) ''no'')
               \<lparr>planner_plan := example_preprocess_plan,
                CheckData_run := (\<lambda>k p. Inr [CHR 0x20, CHR 0xC2, CHR 0xA0, CHR 0x0A])\<rparr>)
            example_config example_state
     = (Inr (), example_state
          \<lparr>trace := trace example_state
             @ [CheckDataRun example_preprocess_plan (Inr [CHR 0x20, CHR 0xC2, CHR 0xA0, CHR 0x0A])]\<rparr>)"
proof -
  let ?c = "[CHR 0x20, CHR 0xC2, CHR 0xA0, CHR 0x0A]"
  let ?env = "(example_env (\<lambda>k. True) ''no'')
               \<lparr>planner_plan := example_preprocess_plan, CheckData_run := (\<lambda>k p. Inr ?c)\<rparr>"
  have g: "CheckData_run ?env (calls is_CheckDataRun example_state) (planner_plan ?env) = Inr ?c"
    by simp
  have w: "only_whitespace ?c"
    by (intro only_whitespace.intros) (simp_all add: is_space1_def is_space2_def)
  from blank_inspection_code_skips_execution [OF g w, of example_config]
  show ?thesis
    by (simp add: example_config_def example_env_def example_preprocess_plan_def
          get_finished_tasks_def)
qed

subsection \<open>Backend calls of a whole invocation\<close>













subsection \<open>Sink failures in the image helper\<close>









end
